theory Spec2Isabelle
  imports Complex_Main "HOL-Library.Char_ord" "HOL-Library.List_Lexorder"
    "HOL-Library.Multiset"
    "HOL-Library.Option_ord"
begin

section \<open>Values, keys and row identifiers (zero-client/src/client/keys.ts)\<close>

text \<open>
  JSON values as they travel in pokes. Numbers that occur in keys and rows are kept as
  integers; nothing below computes with them.
\<close>

datatype JSONValue =
    JNull
  | JBool bool
  | JNum int
  | JStr string
  | JArr "JSONValue list"
  | JObj "(string \<times> JSONValue) list"

text \<open>A row is a JavaScript object; \<open>value[k]\<close> is \<open>map_of value k\<close>, undefined being \<open>None\<close>.\<close>

type_synonym Row = "(string \<times> JSONValue) list"

type_synonym CompoundKey = "string list"

text \<open>
  The functions that \<open>keys.ts\<close> imports from other packages are parameters of the model:
  \<open>parse_pk x\<close> is \<open>v.parse(x, primaryKeyValueSchema)\<close> (it returns the validated value
  or throws, which is \<open>None\<close>), \<open>to_string\<close> is JavaScript's conversion of a validated key
  value in a string concatenation, \<open>json_stringify\<close> is \<open>JSON.stringify\<close> on the array of
  validated key values and \<open>h128\<close> is the 128-bit hash of shared/src/hash.js.
\<close>

record Deps =
  parse_pk :: "JSONValue option \<Rightarrow> JSONValue option"
  to_string :: "JSONValue \<Rightarrow> string"
  json_stringify :: "JSONValue list \<Rightarrow> string"
  h128 :: "string \<Rightarrow> string"

definition CLIENTS_KEY_PREFIX :: string where
  "CLIENTS_KEY_PREFIX = ''c/''"

definition DESIRED_QUERIES_KEY_PREFIX :: string where
  "DESIRED_QUERIES_KEY_PREFIX = ''d/''"

definition GOT_QUERIES_KEY_PREFIX :: string where
  "GOT_QUERIES_KEY_PREFIX = ''g/''"

definition ENTITIES_KEY_PREFIX :: string where
  "ENTITIES_KEY_PREFIX = ''e/''"

definition toClientsKey :: "string \<Rightarrow> string" where
  "toClientsKey clientID = CLIENTS_KEY_PREFIX @ clientID"

definition toDesiredQueriesKey :: "string \<Rightarrow> string \<Rightarrow> string" where
  "toDesiredQueriesKey clientID hash = DESIRED_QUERIES_KEY_PREFIX @ clientID @ ''/'' @ hash"

definition toGotQueriesKey :: "string \<Rightarrow> string" where
  "toGotQueriesKey hash = GOT_QUERIES_KEY_PREFIX @ hash"

text \<open>
  \<open>primaryKey.map(k => v.parse(value[k], primaryKeyValueSchema))\<close>: the first value that
  fails validation throws.
\<close>

fun parseAll :: "Deps \<Rightarrow> Row \<Rightarrow> string list \<Rightarrow> JSONValue list option" where
  "parseAll D val [] = Some []"
| "parseAll D val (k # ks) =
     (case parse_pk D (map_of val k) of
        None \<Rightarrow> None
      | Some x \<Rightarrow> (case parseAll D val ks of None \<Rightarrow> None | Some xs \<Rightarrow> Some (x # xs)))"

datatype PokeError =
    UnexpectedCookieGap
  | ValidationError
  | UndefinedTable string
  | UnexpectedBaseCookie

definition toPrimaryKeyString :: "Deps \<Rightarrow> string \<Rightarrow> CompoundKey \<Rightarrow> Row \<Rightarrow> PokeError + string" where
  "toPrimaryKeyString D tableName primaryKey val =
     (if length primaryKey = 1 then
        (case parse_pk D (map_of val (primaryKey ! 0)) of
           None \<Rightarrow> Inl ValidationError
         | Some x \<Rightarrow> Inr (ENTITIES_KEY_PREFIX @ tableName @ ''/'' @ to_string D x))
      else
        (case parseAll D val primaryKey of
           None \<Rightarrow> Inl ValidationError
         | Some values \<Rightarrow>
             Inr (ENTITIES_KEY_PREFIX @ tableName @ ''/'' @ h128 D (json_stringify D values))))"

section \<open>Pokes (zero-client/src/client/context.ts, second part)\<close>

text \<open>
  The bodies of the poke messages are declared in zero-protocol; the fields are the ones
  the handler reads. Cookies are version strings, and the base cookie of a client that
  has no cookie yet is null (\<open>None\<close>). Patch operations carry their operands: the
  client id, the query hash and AST, the table name with the row or its id.
\<close>

record PokeStartBody =
  pokeID :: string
  baseCookie :: "string option"
  cookie :: string

datatype ClientsPatchOp =
    ClientsPut string
  | ClientsDel string
  | ClientsClear

datatype QueriesPatchOp =
    QueriesPut string JSONValue
  | QueriesDel string
  | QueriesClear

datatype RowPatchOp =
    RowPut string Row
  | RowDel string Row
  | RowUpdate string Row "Row option" "string list option"
  | RowClear

text \<open>
  An absent optional field is \<open>None\<close>. The two objects that \<open>mergePokes\<close> walks with
  \<open>Object.entries\<close> are given by their entries, in that order.
\<close>

record PokePartBody =
  partPokeID :: string
  lastMutationIDChanges :: "(string \<times> int) list option"
  clientsPatch :: "ClientsPatchOp list option"
  desiredQueriesPatches :: "(string \<times> QueriesPatchOp list) list option"
  gotQueriesPatch :: "QueriesPatchOp list option"
  rowsPatch :: "RowPatchOp list option"

record PokeEndBody =
  endPokeID :: string
  cancel :: bool

record PokeAccumulator =
  pokeStart :: PokeStartBody
  parts :: "PokePartBody list"

datatype PatchOperationInternal =
    OpPut string JSONValue
  | OpDel string
  | OpUpdate string "Row option" "string list option"
  | OpClear

record PullResponse =
  mergedLastMutationIDChanges :: "string \<rightharpoonup> int"
  patch :: "PatchOperationInternal list"
  responseCookie :: string

record PokeInternal =
  pokeBaseCookie :: "string option"
  pullResponse :: PullResponse

record TableSchema =
  tableName :: string
  primaryKey :: CompoundKey

text \<open>\<open>schema.tables\<close>: a lookup of a table that is not declared gives undefined.\<close>

type_synonym Schema = "string \<rightharpoonup> TableSchema"

fun clientsPatchOpToReplicachePatchOp :: "ClientsPatchOp \<Rightarrow> PatchOperationInternal" where
  "clientsPatchOpToReplicachePatchOp ClientsClear = OpClear"
| "clientsPatchOpToReplicachePatchOp (ClientsDel clientID) = OpDel (toClientsKey clientID)"
| "clientsPatchOpToReplicachePatchOp (ClientsPut clientID) =
     OpPut (toClientsKey clientID) (JBool True)"

fun queryPatchOpToReplicachePatchOp ::
  "QueriesPatchOp \<Rightarrow> (string \<Rightarrow> string) \<Rightarrow> PatchOperationInternal" where
  "queryPatchOpToReplicachePatchOp QueriesClear toKey = OpClear"
| "queryPatchOpToReplicachePatchOp (QueriesDel hash) toKey = OpDel (toKey hash)"
| "queryPatchOpToReplicachePatchOp (QueriesPut hash ast) toKey = OpPut (toKey hash) ast"

text \<open>
  \<open>schema.tables[op.tableName].primaryKey\<close> throws a TypeError when the table is not in
  the schema; \<open>toPrimaryKeyString\<close> throws when a key value fails validation.
\<close>

definition keyOf :: "Deps \<Rightarrow> Schema \<Rightarrow> string \<Rightarrow> Row \<Rightarrow> PokeError + string" where
  "keyOf D schema table val =
     (case schema table of
        None \<Rightarrow> Inl (UndefinedTable table)
      | Some ts \<Rightarrow> toPrimaryKeyString D table (primaryKey ts) val)"

fun rowsPatchOpToReplicachePatchOp ::
  "Deps \<Rightarrow> Schema \<Rightarrow> RowPatchOp \<Rightarrow> PokeError + PatchOperationInternal" where
  "rowsPatchOpToReplicachePatchOp D schema RowClear = Inr OpClear"
| "rowsPatchOpToReplicachePatchOp D schema (RowDel table ident) =
     (case keyOf D schema table ident of Inl e \<Rightarrow> Inl e | Inr k \<Rightarrow> Inr (OpDel k))"
| "rowsPatchOpToReplicachePatchOp D schema (RowPut table val) =
     (case keyOf D schema table val of Inl e \<Rightarrow> Inl e | Inr k \<Rightarrow> Inr (OpPut k (JObj val)))"
| "rowsPatchOpToReplicachePatchOp D schema (RowUpdate table ident merge constrain) =
     (case keyOf D schema table ident of
        Inl e \<Rightarrow> Inl e
      | Inr k \<Rightarrow> Inr (OpUpdate k merge constrain))"

text \<open>\<open>rowsPatch.map(p => rowsPatchOpToReplicachePatchOp(p, schema))\<close>, stopping at a throw.\<close>

fun mapRows :: "Deps \<Rightarrow> Schema \<Rightarrow> RowPatchOp list \<Rightarrow> PokeError + PatchOperationInternal list" where
  "mapRows D schema [] = Inr []"
| "mapRows D schema (p # ps) =
     (case rowsPatchOpToReplicachePatchOp D schema p of
        Inl e \<Rightarrow> Inl e
      | Inr x \<Rightarrow> (case mapRows D schema ps of Inl e \<Rightarrow> Inl e | Inr xs \<Rightarrow> Inr (x # xs)))"

text \<open>
  \<open>mergedLastMutationIDChanges[clientID] = lastMutationID\<close> on the object created by
  \<open>{}\<close>: the assignment creates or overwrites the property, except for the key
  \<open>__proto__\<close>, which such an object inherits as an accessor whose setter ignores a
  number, so that no property is created. The map holds the object's own properties.
\<close>

definition assign :: "(string \<rightharpoonup> int) \<Rightarrow> string \<Rightarrow> int \<Rightarrow> (string \<rightharpoonup> int)" where
  "assign m key val = (if key = ''__proto__'' then m else m(key \<mapsto> val))"

text \<open>The loop over \<open>Object.entries(pokePart.lastMutationIDChanges)\<close>.\<close>

fun setLastMutationIDs :: "(string \<times> int) list \<Rightarrow> (string \<rightharpoonup> int) \<Rightarrow> (string \<rightharpoonup> int)" where
  "setLastMutationIDs [] m = m"
| "setLastMutationIDs ((clientID, lastMutationID) # es) m =
     setLastMutationIDs es (assign m clientID lastMutationID)"

text \<open>The loop over \<open>Object.entries(pokePart.desiredQueriesPatches)\<close>.\<close>

fun desiredOps :: "(string \<times> QueriesPatchOp list) list \<Rightarrow> PatchOperationInternal list" where
  "desiredOps [] = []"
| "desiredOps ((clientID, queriesPatch) # es) =
     map (\<lambda>op. queryPatchOpToReplicachePatchOp op (\<lambda>hash. toDesiredQueriesKey clientID hash))
       queriesPatch @ desiredOps es"

text \<open>
  The body of the inner loop of \<open>mergePokes\<close>: one part, given the accumulated
  \<open>mergedLastMutationIDChanges\<close> and \<open>mergedPatch\<close>.
\<close>

definition mergePart ::
  "Deps \<Rightarrow> Schema \<Rightarrow> PokePartBody \<Rightarrow> (string \<rightharpoonup> int) \<times> PatchOperationInternal list \<Rightarrow>
   PokeError + (string \<rightharpoonup> int) \<times> PatchOperationInternal list" where
  "mergePart D schema pokePart acc =
     (let lm = (case lastMutationIDChanges pokePart of
                  None \<Rightarrow> fst acc
                | Some es \<Rightarrow> setLastMutationIDs es (fst acc));
          p1 = snd acc @ (case clientsPatch pokePart of
                            None \<Rightarrow> []
                          | Some ops \<Rightarrow> map clientsPatchOpToReplicachePatchOp ops);
          p2 = p1 @ (case desiredQueriesPatches pokePart of
                       None \<Rightarrow> []
                     | Some es \<Rightarrow> desiredOps es);
          p3 = p2 @ (case gotQueriesPatch pokePart of
                       None \<Rightarrow> []
                     | Some ops \<Rightarrow>
                         map (\<lambda>op. queryPatchOpToReplicachePatchOp op toGotQueriesKey) ops)
      in case rowsPatch pokePart of
           None \<Rightarrow> Inr (lm, p3)
         | Some ops \<Rightarrow>
             (case mapRows D schema ops of Inl e \<Rightarrow> Inl e | Inr rs \<Rightarrow> Inr (lm, p3 @ rs)))"

fun mergeParts ::
  "Deps \<Rightarrow> Schema \<Rightarrow> PokePartBody list \<Rightarrow> (string \<rightharpoonup> int) \<times> PatchOperationInternal list \<Rightarrow>
   PokeError + (string \<rightharpoonup> int) \<times> PatchOperationInternal list" where
  "mergeParts D schema [] acc = Inr acc"
| "mergeParts D schema (p # ps) acc =
     (case mergePart D schema p acc of
        Inl e \<Rightarrow> Inl e
      | Inr acc' \<Rightarrow> mergeParts D schema ps acc')"

text \<open>
  The test of the outer loop: \<open>prevPokeStart && pokeStart.baseCookie &&
  pokeStart.baseCookie > prevPokeStart.cookie\<close>. The empty string is falsy, as null is;
  \<open>>\<close> on two strings compares them lexicographically.
\<close>

definition cookieGap :: "PokeStartBody option \<Rightarrow> PokeStartBody \<Rightarrow> bool" where
  "cookieGap prevPokeStart ps =
     (case prevPokeStart of
        None \<Rightarrow> False
      | Some prev \<Rightarrow>
          (case baseCookie ps of
             None \<Rightarrow> False
           | Some b \<Rightarrow> b \<noteq> [] \<and> b > cookie prev))"

fun mergeLoop ::
  "Deps \<Rightarrow> Schema \<Rightarrow> PokeAccumulator list \<Rightarrow> PokeStartBody option \<Rightarrow>
   (string \<rightharpoonup> int) \<times> PatchOperationInternal list \<Rightarrow>
   PokeError + (string \<rightharpoonup> int) \<times> PatchOperationInternal list" where
  "mergeLoop D schema [] prevPokeStart acc = Inr acc"
| "mergeLoop D schema (pokeAccumulator # rest) prevPokeStart acc =
     (if cookieGap prevPokeStart (pokeStart pokeAccumulator) then Inl UnexpectedCookieGap
      else (case mergeParts D schema (parts pokeAccumulator) acc of
              Inl e \<Rightarrow> Inl e
            | Inr acc' \<Rightarrow> mergeLoop D schema rest (Some (pokeStart pokeAccumulator)) acc'))"

definition mergePokes ::
  "Deps \<Rightarrow> PokeAccumulator list \<Rightarrow> Schema \<Rightarrow> PokeError + PokeInternal option" where
  "mergePokes D pokeBuffer schema =
     (if length pokeBuffer = 0 then Inr None
      else
        (case mergeLoop D schema pokeBuffer None (Map.empty, []) of
           Inl e \<Rightarrow> Inl e
         | Inr acc \<Rightarrow>
             Inr (Some \<lparr>pokeBaseCookie = baseCookie (pokeStart (hd pokeBuffer)),
                        pullResponse =
                          \<lparr>mergedLastMutationIDChanges = fst acc,
                           patch = snd acc,
                           responseCookie = cookie (pokeStart (last pokeBuffer))\<rparr>\<rparr>)))"

subsection \<open>PokeHandler\<close>

text \<open>
  The fields of the handler that its message handlers touch, with two counters for what
  they do to the outside: the calls of \<open>onPokeError\<close> and the frames requested from
  \<open>requestAnimationFrame\<close>.
\<close>

record PokeHandler =
  receivingPoke :: "PokeAccumulator option"
  pokeBuffer :: "PokeAccumulator list"
  pokePlaybackLoopRunning :: bool
  onPokeErrorCalls :: nat
  rafCalls :: nat

definition clear :: "PokeHandler \<Rightarrow> PokeHandler" where
  "clear h = h\<lparr>receivingPoke := None, pokeBuffer := []\<rparr>"

definition handlePokeError :: "PokeHandler \<Rightarrow> PokeHandler" where
  "handlePokeError h = (let h' = clear h in h'\<lparr>onPokeErrorCalls := onPokeErrorCalls h' + 1\<rparr>)"

definition handlePokeStart :: "PokeStartBody \<Rightarrow> PokeHandler \<Rightarrow> PokeHandler" where
  "handlePokeStart ps h =
     (case receivingPoke h of
        Some r \<Rightarrow> handlePokeError h
      | None \<Rightarrow> h\<lparr>receivingPoke := Some \<lparr>pokeStart = ps, parts = []\<rparr>\<rparr>)"

definition handlePokePart :: "string \<Rightarrow> PokePartBody \<Rightarrow> PokeHandler \<Rightarrow> int option \<times> PokeHandler" where
  "handlePokePart clientID pokePart h =
     (case receivingPoke h of
        None \<Rightarrow> (None, handlePokeError h)
      | Some r \<Rightarrow>
          if partPokeID pokePart \<noteq> pokeID (pokeStart r) then (None, handlePokeError h)
          else ((case lastMutationIDChanges pokePart of
                   None \<Rightarrow> None
                 | Some es \<Rightarrow> map_of es clientID),
                h\<lparr>receivingPoke := Some (r\<lparr>parts := parts r @ [pokePart]\<rparr>)\<rparr>))"

definition startPlaybackLoop :: "PokeHandler \<Rightarrow> PokeHandler" where
  "startPlaybackLoop h = h\<lparr>pokePlaybackLoopRunning := True, rafCalls := rafCalls h + 1\<rparr>"

definition handlePokeEnd :: "PokeEndBody \<Rightarrow> PokeHandler \<Rightarrow> PokeHandler" where
  "handlePokeEnd pokeEnd h =
     (case receivingPoke h of
        None \<Rightarrow> handlePokeError h
      | Some r \<Rightarrow>
          if endPokeID pokeEnd \<noteq> pokeID (pokeStart r) then handlePokeError h
          else if cancel pokeEnd then h\<lparr>receivingPoke := None\<rparr>
          else
            (let h' = h\<lparr>pokeBuffer := pokeBuffer h @ [r], receivingPoke := None\<rparr>
             in if \<not> pokePlaybackLoopRunning h' then startPlaybackLoop h' else h'))"

definition handleDisconnect :: "PokeHandler \<Rightarrow> PokeHandler" where
  "handleDisconnect h = clear h"

section \<open>Applying pokes to the client state\<close>

text \<open>
  Modelled from the spec: the consumer of a merged poke, the \<open>replicachePoke\<close> callback
  handed to the handler, whose source is missing. A poke advances the client from
  \<open>baseCookie\<close> to \<open>cookie\<close> (section 4.4); it is refused with the base-cookie mismatch
  error when its \<open>baseCookie\<close> is not the cookie the client holds (the poke test of
  replicache.test.ts expects that error for a second poke from null). Otherwise the
  patch operations are applied in order, the last mutation ids of the named clients are
  overwritten and the cookie is advanced. How one patch operation changes the key-value
  store is left open: \<open>step\<close> is any function.
\<close>

record 'st Replica =
  clientCookie :: "string option"
  lastMutationIDs :: "string \<rightharpoonup> int"
  kv :: 'st

definition applyPoke ::
  "(PatchOperationInternal \<Rightarrow> 'st \<Rightarrow> 'st) \<Rightarrow> 'st Replica \<Rightarrow> PokeInternal \<Rightarrow>
   PokeError + 'st Replica" where
  "applyPoke step s poke =
     (if pokeBaseCookie poke \<noteq> clientCookie s then Inl UnexpectedBaseCookie
      else Inr \<lparr>clientCookie = Some (responseCookie (pullResponse poke)),
                lastMutationIDs =
                  lastMutationIDs s ++ mergedLastMutationIDChanges (pullResponse poke),
                kv = fold step (patch (pullResponse poke)) (kv s)\<rparr>)"

text \<open>Applying the merged poke of a buffer, as \<open>#processPokesForFrame\<close> does.\<close>

definition applyMerged ::
  "Deps \<Rightarrow> Schema \<Rightarrow> (PatchOperationInternal \<Rightarrow> 'st \<Rightarrow> 'st) \<Rightarrow> 'st Replica \<Rightarrow>
   PokeAccumulator list \<Rightarrow> PokeError + 'st Replica" where
  "applyMerged D schema step s buf =
     (case mergePokes D buf schema of
        Inl e \<Rightarrow> Inl e
      | Inr None \<Rightarrow> Inr s
      | Inr (Some merged) \<Rightarrow> applyPoke step s merged)"

text \<open>
  The words of the spec for the patch of one part: its client, desired-query, got-query
  and row operations, in that order, each list in its own order.
\<close>

definition partPatch :: "Deps \<Rightarrow> Schema \<Rightarrow> PokePartBody \<Rightarrow> PatchOperationInternal list" where
  "partPatch D schema p =
     (case clientsPatch p of None \<Rightarrow> [] | Some ops \<Rightarrow> map clientsPatchOpToReplicachePatchOp ops)
     @ (case desiredQueriesPatches p of None \<Rightarrow> [] | Some es \<Rightarrow> desiredOps es)
     @ (case gotQueriesPatch p of
          None \<Rightarrow> []
        | Some ops \<Rightarrow> map (\<lambda>op. queryPatchOpToReplicachePatchOp op toGotQueriesKey) ops)
     @ (case rowsPatch p of
          None \<Rightarrow> []
        | Some ops \<Rightarrow> (case mapRows D schema ops of Inl e \<Rightarrow> [] | Inr rs \<Rightarrow> rs))"

text \<open>Every row operation of a part can be given its key.\<close>

definition rowsTranslate :: "Deps \<Rightarrow> Schema \<Rightarrow> PokePartBody \<Rightarrow> bool" where
  "rowsTranslate D schema p =
     (case rowsPatch p of None \<Rightarrow> True | Some ops \<Rightarrow> \<not> isl (mapRows D schema ops))"

text \<open>
  Modelled from the spec: what the pokes of a buffer do to the client when each is
  applied as a poke of its own, one after the other (section 4.4, and property 7 of
  the testable properties); the code has no such path, it only ever delivers the merged
  poke. A poke is refused for its base cookie when its \<open>baseCookie\<close> is not the cookie the client
  holds. Its parts are applied in order: a part overwrites the last mutation id of every
  client it names, entry by entry, and its patch operations are applied in order; a part
  with a row operation that cannot be given its key fails and the poke with it. Then the
  cookie of the client is the poke's cookie.
\<close>

definition applyPart ::
  "Deps \<Rightarrow> Schema \<Rightarrow> (PatchOperationInternal \<Rightarrow> 'st \<Rightarrow> 'st) \<Rightarrow> 'st Replica \<Rightarrow>
   PokePartBody \<Rightarrow> PokeError + 'st Replica" where
  "applyPart D schema step s p =
     (case (case rowsPatch p of None \<Rightarrow> Inr [] | Some ops \<Rightarrow> mapRows D schema ops) of
        Inl e \<Rightarrow> Inl e
      | Inr rowOps \<Rightarrow>
          Inr (s\<lparr>lastMutationIDs :=
                    fold (\<lambda>e ids. ids(fst e \<mapsto> snd e))
                      (case lastMutationIDChanges p of None \<Rightarrow> [] | Some es \<Rightarrow> es)
                      (lastMutationIDs s),
                  kv :=
                    fold step
                      ((case clientsPatch p of
                          None \<Rightarrow> []
                        | Some ops \<Rightarrow> map clientsPatchOpToReplicachePatchOp ops)
                       @ (case desiredQueriesPatches p of None \<Rightarrow> [] | Some es \<Rightarrow> desiredOps es)
                       @ (case gotQueriesPatch p of
                            None \<Rightarrow> []
                          | Some ops \<Rightarrow>
                              map (\<lambda>op. queryPatchOpToReplicachePatchOp op toGotQueriesKey) ops)
                       @ rowOps)
                      (kv s)\<rparr>))"

fun applyParts ::
  "Deps \<Rightarrow> Schema \<Rightarrow> (PatchOperationInternal \<Rightarrow> 'st \<Rightarrow> 'st) \<Rightarrow> 'st Replica \<Rightarrow>
   PokePartBody list \<Rightarrow> PokeError + 'st Replica" where
  "applyParts D schema step s [] = Inr s"
| "applyParts D schema step s (p # ps) =
     (case applyPart D schema step s p of
        Inl e \<Rightarrow> Inl e
      | Inr s' \<Rightarrow> applyParts D schema step s' ps)"

definition applyOne ::
  "Deps \<Rightarrow> Schema \<Rightarrow> (PatchOperationInternal \<Rightarrow> 'st \<Rightarrow> 'st) \<Rightarrow> 'st Replica \<Rightarrow>
   PokeAccumulator \<Rightarrow> PokeError + 'st Replica" where
  "applyOne D schema step s p =
     (if baseCookie (pokeStart p) \<noteq> clientCookie s then Inl UnexpectedBaseCookie
      else (case applyParts D schema step s (parts p) of
              Inl e \<Rightarrow> Inl e
            | Inr s' \<Rightarrow> Inr (s'\<lparr>clientCookie := Some (cookie (pokeStart p))\<rparr>)))"

fun applyInOrder ::
  "Deps \<Rightarrow> Schema \<Rightarrow> (PatchOperationInternal \<Rightarrow> 'st \<Rightarrow> 'st) \<Rightarrow> 'st Replica \<Rightarrow>
   PokeAccumulator list \<Rightarrow> PokeError + 'st Replica" where
  "applyInOrder D schema step s [] = Inr s"
| "applyInOrder D schema step s (p # ps) =
     (case applyOne D schema step s p of
        Inl e \<Rightarrow> Inl e
      | Inr s' \<Rightarrow> applyInOrder D schema step s' ps)"

text \<open>
  A buffer is chained from a cookie when every poke starts at the cookie the one before
  it ended at; \<open>advanced\<close> is the client after the whole buffer.
\<close>

fun chained :: "string option \<Rightarrow> PokeAccumulator list \<Rightarrow> bool" where
  "chained c [] = True"
| "chained c (p # ps) =
     (baseCookie (pokeStart p) = c \<and> chained (Some (cookie (pokeStart p))) ps)"

text \<open>
  The words of the spec for the merged poke: every entry of every part's
  \<open>lastMutationIDChanges\<close> in buffer order, and the patch of one part (client, desired
  query, got query and row operations, in that order).
\<close>

definition allParts :: "PokeAccumulator list \<Rightarrow> PokePartBody list" where
  "allParts buf = concat (map parts buf)"

definition allChanges :: "PokePartBody list \<Rightarrow> (string \<times> int) list" where
  "allChanges ps =
     concat (map (\<lambda>p. case lastMutationIDChanges p of None \<Rightarrow> [] | Some es \<Rightarrow> es) ps)"

definition advanced ::
  "Deps \<Rightarrow> Schema \<Rightarrow> (PatchOperationInternal \<Rightarrow> 'st \<Rightarrow> 'st) \<Rightarrow> 'st Replica \<Rightarrow>
   PokeAccumulator list \<Rightarrow> 'st Replica" where
  "advanced D schema step s buf =
     (if buf = [] then s
      else \<lparr>clientCookie = Some (cookie (pokeStart (last buf))),
            lastMutationIDs = lastMutationIDs s ++ map_of (rev (allChanges (allParts buf))),
            kv = fold step (concat (map (partPatch D schema) (allParts buf))) (kv s)\<rparr>)"

text \<open>
  The words of the spec for the cookie check: some poke's \<open>baseCookie\<close> is greater than
  the cookie of the poke just before it, null being below every cookie.
\<close>

fun hasGap :: "PokeAccumulator list \<Rightarrow> bool" where
  "hasGap (a # b # rest) =
     (baseCookie (pokeStart b) > Some (cookie (pokeStart a)) \<or> hasGap (b # rest))"
| "hasGap [a] = False"
| "hasGap [] = False"

section \<open>Connection loop (replicache/src/connection-loop.ts)\<close>

text \<open>
  JavaScript numbers: durations are differences of \<open>Date.now()\<close> and so integers, and the
  delays computed from them are integers too; only the median of an even number of
  durations and its quotient by \<open>maxConnections\<close> can be fractions, kept exact here.
\<close>

record SendRecord =
  duration :: int
  ok :: bool

record ConnectionLoopDelegate =
  debounceDelay :: int
  watchdogTimer :: "int option"
  maxConnections :: int
  maxDelayMs :: int
  minDelayMs :: int

definition CONNECTION_MEMORY_COUNT :: nat where
  "CONNECTION_MEMORY_COUNT = 9"

text \<open>
  \<open>values.sort()\<close> without a comparator orders the elements by their string conversions,
  compared code unit by code unit; the sort is stable.
\<close>

definition digitChar :: "nat \<Rightarrow> char" where
  "digitChar d = ''0123456789'' ! d"

fun digits :: "nat \<Rightarrow> string" where
  "digits n = (if n < 10 then [digitChar n] else digits (n div 10) @ [digitChar (n mod 10)])"

definition numberToString :: "int \<Rightarrow> string" where
  "numberToString i = (if i < 0 then CHR ''-'' # digits (nat (- i)) else digits (nat i))"

definition jsSort :: "int list \<Rightarrow> int list" where
  "jsSort values = sort_key numberToString values"

text \<open>
  \<open>median\<close>: \<open>None\<close> is NaN, which is what the sum of two reads past the ends of an
  empty array gives.
\<close>

definition median :: "int list \<Rightarrow> rat option" where
  "median values =
     (let sorted_values = jsSort values;
          len = length sorted_values;
          half = len div 2
      in if len mod 2 = 1 then Some (of_int (sorted_values ! half))
         else if len = 0 then None
         else Some ((of_int (sorted_values ! (half - 1)) + of_int (sorted_values ! half)) / 2))"

text \<open>
  \<open>x | 0\<close>: truncation towards zero, then wrap-around into the signed 32-bit range;
  NaN and the infinities give 0.
\<close>

definition truncateToZero :: "rat \<Rightarrow> int" where
  "truncateToZero x = (if x < 0 then \<lceil>x\<rceil> else \<lfloor>x\<rfloor>)"

definition toInt32 :: "rat \<Rightarrow> int" where
  "toInt32 x = (truncateToZero x + 2 ^ 31) mod 2 ^ 32 - 2 ^ 31"

definition quotientToInt32 :: "rat option \<Rightarrow> int \<Rightarrow> int" where
  "quotientToInt32 med n =
     (case med of
        None \<Rightarrow> 0
      | Some m \<Rightarrow> if n = 0 then 0 else toInt32 (m / of_int n))"

definition successfulDurations :: "SendRecord list \<Rightarrow> int list" where
  "successfulDurations sendRecords = map duration (filter ok sendRecords)"

text \<open>The pruning loop: \<open>while (sendRecords.length > 9) sendRecords.shift()\<close>.\<close>

definition prune :: "SendRecord list \<Rightarrow> SendRecord list" where
  "prune sendRecords = drop (length sendRecords - CONNECTION_MEMORY_COUNT) sendRecords"

text \<open>The function returns the new delay; the records it has pruned are returned with it.\<close>

definition computeDelayAndUpdateDurations ::
  "int \<Rightarrow> ConnectionLoopDelegate \<Rightarrow> SendRecord list \<Rightarrow> int \<times> SendRecord list" where
  "computeDelayAndUpdateDurations delay delegate sendRecords =
     (if length sendRecords = 0 then (delay, sendRecords)
      else if \<not> ok (last sendRecords) then
        ((if delay = 0 then minDelayMs delegate else delay * 2), sendRecords)
      else if length sendRecords > 1 then
        (let previous = sendRecords ! (length sendRecords - 2);
             pruned = prune sendRecords
         in if \<not> ok previous then (minDelayMs delegate, pruned)
            else (quotientToInt32 (median (successfulDurations pruned)) (maxConnections delegate),
                  pruned))
      else (quotientToInt32 (median (successfulDurations sendRecords)) (maxConnections delegate),
            sendRecords))"

definition didLastSendRequestFail :: "SendRecord list \<Rightarrow> bool" where
  "didLastSendRequestFail sendRecords =
     (length sendRecords > 0 \<and> \<not> ok (last sendRecords))"

definition recovered :: "SendRecord list \<Rightarrow> bool" where
  "recovered sendRecords =
     (length sendRecords > 1 \<and> \<not> ok (sendRecords ! (length sendRecords - 2))
      \<and> ok (last sendRecords))"

text \<open>
  The part of one iteration of \<open>run\<close> between the wait for a free connection and the
  sleep: the new value of \<open>delay\<close>, the records, and \<open>clampedDelay\<close>.
\<close>

definition nextDelay ::
  "nat \<Rightarrow> int \<Rightarrow> ConnectionLoopDelegate \<Rightarrow> SendRecord list \<Rightarrow> int \<times> SendRecord list" where
  "nextDelay counter delay delegate sendRecords =
     (if counter > 0 \<or> didLastSendRequestFail sendRecords
      then computeDelayAndUpdateDurations delay delegate sendRecords
      else (0, sendRecords))"

definition clampedDelay :: "ConnectionLoopDelegate \<Rightarrow> int \<Rightarrow> int" where
  "clampedDelay delegate delay = min (maxDelayMs delegate) (max (minDelayMs delegate) delay)"

text \<open>
  The words of the spec: the median of the last at most nine successful durations,
  divided by \<open>maxConnections\<close> and clamped to \<open>[minDelayMs, maxDelayMs]\<close>.
\<close>

definition numericMedian :: "int list \<Rightarrow> rat" where
  "numericMedian values =
     (let sorted_values = sort values;
          len = length sorted_values;
          half = len div 2
      in if len mod 2 = 1 then of_int (sorted_values ! half)
         else (of_int (sorted_values ! (half - 1)) + of_int (sorted_values ! half)) / 2)"

definition lastSuccessful :: "SendRecord list \<Rightarrow> int list" where
  "lastSuccessful sendRecords =
     (let ds = successfulDurations sendRecords
      in drop (length ds - CONNECTION_MEMORY_COUNT) ds)"

definition specDelay :: "ConnectionLoopDelegate \<Rightarrow> SendRecord list \<Rightarrow> rat" where
  "specDelay delegate sendRecords =
     min (of_int (maxDelayMs delegate))
       (max (of_int (minDelayMs delegate))
          (numericMedian (lastSuccessful sendRecords) / of_int (maxConnections delegate)))"

subsection \<open>Closing the loop\<close>

text \<open>
  \<open>send\<close> is an async function: its promise is fulfilled with what the function returns
  and stays pending while the function waits. \<open>closeError()\<close> is \<open>new Error('Closed')\<close>.
\<close>

datatype JSError = Error string

definition closeError :: JSError where
  "closeError = Error ''Closed''"

text \<open>The result of \<open>send\<close>: \<open>undefined\<close> is \<open>None\<close>, \<open>{error}\<close> is \<open>Some error\<close>.\<close>

type_synonym SendResult = "JSError option"

datatype 'a Promise =
    is_Pending: Pending
  | is_Fulfilled: Fulfilled 'a
  | is_Rejected: Rejected JSError

text \<open>
  Where a call of \<open>send\<close> stands: waiting for the document to be visible, waiting for
  the send resolver that was current when it reached that line, or returned.
\<close>

datatype SendCall =
    AwaitVisible
  | AwaitSendResolver nat
  | Returned SendResult

fun promiseOf :: "SendCall \<Rightarrow> SendResult Promise" where
  "promiseOf AwaitVisible = Pending"
| "promiseOf (AwaitSendResolver i) = Pending"
| "promiseOf (Returned r) = Fulfilled r"

text \<open>
  The fields that \<open>send\<close> and \<open>close\<close> read and write. Every send resolver ever created
  is kept in \<open>resolvers\<close> (\<open>None\<close> while unresolved) and \<open>sendResolver\<close> is the index of
  the current one. The two wake-up resolvers of the loop do not influence what \<open>send\<close>
  returns and are left out.
\<close>

record ConnectionLoop =
  closed :: bool
  sendCounter :: int
  resolvers :: "SendResult option list"
  sendResolver :: nat
  calls :: "SendCall list"

definition initialLoop :: ConnectionLoop where
  "initialLoop = \<lparr>closed = False, sendCounter = 0, resolvers = [None], sendResolver = 0,
                   calls = []\<rparr>"

text \<open>Resolving a promise that is already resolved changes nothing.\<close>

definition resolve :: "nat \<Rightarrow> SendResult \<Rightarrow> ConnectionLoop \<Rightarrow> ConnectionLoop" where
  "resolve i r l =
     (if i < length (resolvers l) \<and> resolvers l ! i = None
      then l\<lparr>resolvers := (resolvers l)[i := Some r]\<rparr> else l)"

definition close :: "ConnectionLoop \<Rightarrow> ConnectionLoop" where
  "close l =
     (let l' = l\<lparr>closed := True\<rparr>
      in if sendCounter l' > 0 then resolve (sendResolver l') (Some closeError) l' else l')"

text \<open>
  \<open>send(now)\<close> up to its first wait. With \<open>now\<close> the call goes straight to the wait for
  the send resolver; otherwise it first waits for \<open>waitForVisible\<close>.
\<close>

definition send :: "bool \<Rightarrow> ConnectionLoop \<Rightarrow> ConnectionLoop" where
  "send now l =
     (if closed l then l\<lparr>calls := calls l @ [Returned (Some closeError)]\<rparr>
      else
        (let l' = l\<lparr>sendCounter := sendCounter l + 1\<rparr>
         in if now then l'\<lparr>calls := calls l' @ [AwaitSendResolver (sendResolver l')]\<rparr>
            else l'\<lparr>calls := calls l' @ [AwaitVisible]\<rparr>))"

text \<open>Call \<open>k\<close> comes back from \<open>waitForVisible\<close> and waits for the current send resolver.\<close>

definition visible :: "nat \<Rightarrow> ConnectionLoop \<Rightarrow> ConnectionLoop" where
  "visible k l =
     (if k < length (calls l) \<and> calls l ! k = AwaitVisible
      then l\<lparr>calls := (calls l)[k := AwaitSendResolver (sendResolver l)]\<rparr> else l)"

text \<open>Call \<open>k\<close> comes back from the wait for its send resolver and returns the result.\<close>

definition resume :: "nat \<Rightarrow> ConnectionLoop \<Rightarrow> ConnectionLoop" where
  "resume k l =
     (if k < length (calls l) then
        (case calls l ! k of
           AwaitSendResolver i \<Rightarrow>
             (if i < length (resolvers l) then
                (case resolvers l ! i of
                   Some r \<Rightarrow> l\<lparr>sendCounter := sendCounter l - 1,
                                calls := (calls l)[k := Returned r]\<rparr>
                 | None \<Rightarrow> l)
              else l)
         | _ \<Rightarrow> l)
      else l)"

text \<open>
  The end of a request in \<open>run\<close>, after \<open>invokeSend\<close> has settled: nothing when the loop
  is closed; otherwise the current send resolver is replaced by a new one and resolved
  with the error, or with \<open>undefined\<close>.
\<close>

definition requestDone :: "JSError option \<Rightarrow> ConnectionLoop \<Rightarrow> ConnectionLoop" where
  "requestDone error l =
     (if closed l then l
      else
        (let old = sendResolver l;
             l' = l\<lparr>resolvers := resolvers l @ [None], sendResolver := length (resolvers l)\<rparr>
         in resolve old error l'))"

datatype LoopEvent =
    Send bool
  | Visible nat
  | Resume nat
  | Close
  | RequestDone "JSError option"

fun loopStep :: "ConnectionLoop \<Rightarrow> LoopEvent \<Rightarrow> ConnectionLoop" where
  "loopStep l (Send now) = send now l"
| "loopStep l (Visible k) = visible k l"
| "loopStep l (Resume k) = resume k l"
| "loopStep l Close = close l"
| "loopStep l (RequestDone error) = requestDone error l"

definition runEvents :: "LoopEvent list \<Rightarrow> ConnectionLoop" where
  "runEvents events = foldl loopStep initialLoop events"

text \<open>
  What holds in every state the loop can reach: \<open>sendCounter\<close> counts the calls that have
  not returned, and the current send resolver is unresolved while the loop is open; once
  it is closed the resolver holds the close error, unless no call was waiting.
\<close>

fun isReturned :: "SendCall \<Rightarrow> bool" where
  "isReturned (Returned r) = True"
| "isReturned _ = False"

definition waiting :: "ConnectionLoop \<Rightarrow> nat" where
  "waiting l = length (filter (\<lambda>c. \<not> isReturned c) (calls l))"

definition loopInvariant :: "ConnectionLoop \<Rightarrow> bool" where
  "loopInvariant l =
     (sendResolver l < length (resolvers l)
      \<and> sendCounter l = int (waiting l)
      \<and> (if closed l
         then resolvers l ! sendResolver l = Some (Some closeError)
              \<or> (resolvers l ! sendResolver l = None \<and> sendCounter l = 0)
         else resolvers l ! sendResolver l = None))"

section \<open>Connecting to a room (reflect-server, part_003)\<close>

type_synonym Socket = nat

text \<open>The two frames the handler sends: \<open>['error', message]\<close> and \<open>['connected', {}]\<close>.\<close>

datatype Frame =
    ErrorFrame string
  | ConnectedFrame

datatype Listener =
    OnMessage string
  | OnClose string
  | OnError string

record ClientRecord =
  recordBaseCookie :: "int option"
  lastMutationID :: int

record ConnectRequest =
  clientID :: string
  userData :: string
  requestBaseCookie :: "int option"
  timestamp :: int
  lmid :: int

record ClientState =
  socket :: Socket
  clientUserData :: string
  clockBehindByMs :: "int option"
  pending :: "string list"

text \<open>
  What the handler reads and changes: the frames sent on each socket and the sockets
  closed, the listeners added to each socket (by the client id they are bound to), the
  client map, and in storage the client records, the connected clients and the version.
\<close>

record Room =
  sentFrames :: "Socket \<Rightarrow> Frame list"
  closedSockets :: "Socket set"
  listeners :: "Socket \<Rightarrow> Listener list"
  clients :: "string \<rightharpoonup> ClientState"
  clientRecords :: "string \<rightharpoonup> ClientRecord"
  connectedClients :: "string set"
  storedVersion :: "int option"

definition maybeOldClientStateMessage :: string where
  "maybeOldClientStateMessage =
     ''Possibly the room was re-created without also clearing browser state? Try clearing browser state and trying again.''"

definition wsSend :: "Socket \<Rightarrow> Frame \<Rightarrow> Room \<Rightarrow> Room" where
  "wsSend ws f room = room\<lparr>sentFrames := (sentFrames room)(ws := sentFrames room ws @ [f])\<rparr>"

definition wsClose :: "Socket \<Rightarrow> Room \<Rightarrow> Room" where
  "wsClose ws room = room\<lparr>closedSockets := insert ws (closedSockets room)\<rparr>"

definition sendError :: "Socket \<Rightarrow> string \<Rightarrow> Room \<Rightarrow> Room" where
  "sendError ws error room = wsClose ws (wsSend ws (ErrorFrame error) room)"

text \<open>
  \<open>handleConnection\<close>, given what \<open>getConnectRequest(url, headers)\<close> returned: the error
  text or the parsed request. \<open>compareVersions\<close> (types/version.js) is a parameter.
\<close>

definition handleConnection ::
  "(int option \<Rightarrow> int option \<Rightarrow> int) \<Rightarrow> Socket \<Rightarrow> string + ConnectRequest \<Rightarrow> Room \<Rightarrow> Room" where
  "handleConnection compareVersions ws req room =
     (case req of
        Inl error \<Rightarrow> sendError ws error room
      | Inr parsedConnectRequest \<Rightarrow>
          (let requestClientID = clientID parsedConnectRequest;
               existingRecord = clientRecords room requestClientID;
               existingLastMutationID =
                 (case existingRecord of None \<Rightarrow> 0 | Some r \<Rightarrow> lastMutationID r)
           in if lmid parsedConnectRequest > existingLastMutationID then
                sendError ws (''Unexpected lmid. '' @ maybeOldClientStateMessage) room
              else if compareVersions (requestBaseCookie parsedConnectRequest)
                        (storedVersion room) > 0 then
                sendError ws (''Unexpected baseCookie. '' @ maybeOldClientStateMessage) room
              else
                (let record = \<lparr>recordBaseCookie = requestBaseCookie parsedConnectRequest,
                               lastMutationID = existingLastMutationID\<rparr>;
                     room1 = room\<lparr>clientRecords :=
                                    (clientRecords room)(requestClientID \<mapsto> record),
                                  connectedClients :=
                                    insert requestClientID (connectedClients room)\<rparr>;
                     room2 = (case clients room1 requestClientID of
                                None \<Rightarrow> room1
                              | Some existing \<Rightarrow> wsClose (socket existing) room1);
                     room3 = room2\<lparr>listeners :=
                                     (listeners room2)(ws := listeners room2 ws
                                        @ [OnMessage requestClientID, OnClose requestClientID,
                                           OnError requestClientID])\<rparr>;
                     client = \<lparr>socket = ws,
                               clientUserData = userData parsedConnectRequest,
                               clockBehindByMs = None,
                               pending = []\<rparr>;
                     room4 = room3\<lparr>clients := (clients room3)(requestClientID \<mapsto> client)\<rparr>
                 in wsSend ws ConnectedFrame room4)))"

section \<open>Client view records (view-syncer)\<close>

text \<open>
  The view-syncer's updaters and store (\<open>cvr.ts\<close>, \<open>cvr-store.ts\<close>) are not among the
  sources; only their tests are (part_008). Every definition of this section is modelled
  from sections 3, 4.1, 4.2 and 4.3 of the spec. Where the spec leaves a case open or
  the tests show more than its sentence says, the definition follows the tests and says
  so; the tests are run on the definitions further down.
\<close>

subsection \<open>Version algebra\<close>

text \<open>
  Modelled from the spec: the CVR version and its operations (section 3 and 4.1), whose
  source is missing. A CVR version is a state version and a minor version; a version
  written without a minor version has minor version 0. The order is lexicographic on the
  state version, then numeric on the minor version. \<open>nextMinor\<close> increments the minor
  version, \<open>advance\<close> sets a new state version and resets the minor version to 0.
\<close>

record CVRVersion =
  stateVersion :: string
  minorVersion :: nat

definition versionLess :: "CVRVersion \<Rightarrow> CVRVersion \<Rightarrow> bool" where
  "versionLess a b =
     (stateVersion a < stateVersion b
      \<or> (stateVersion a = stateVersion b \<and> minorVersion a < minorVersion b))"

definition versionLeq :: "CVRVersion \<Rightarrow> CVRVersion \<Rightarrow> bool" where
  "versionLeq a b = (versionLess a b \<or> a = b)"

definition nextMinor :: "CVRVersion \<Rightarrow> CVRVersion" where
  "nextMinor v = v\<lparr>minorVersion := minorVersion v + 1\<rparr>"

definition advance :: "CVRVersion \<Rightarrow> string \<Rightarrow> CVRVersion" where
  "advance v sv = v\<lparr>stateVersion := sv, minorVersion := 0\<rparr>"

subsection \<open>Rows received by the query-driven updater\<close>

text \<open>
  Modelled from the spec: the row identifier, the row record and the patch of section 3
  and 4.3.3, whose declarations are missing. A tombstone has \<open>refCounts = None\<close>. A
  received row carries its version, its reference counts by query and its contents.
  Reference counts are an object; it is given by its entries, whose order carries no
  meaning.
\<close>

record RowID =
  rowSchema :: string
  rowTable :: string
  rowKey :: Row

record RowRecord =
  rowVersion :: string
  patchVersion :: CVRVersion
  refCounts :: "(string \<times> int) list option"

record RowUpdate =
  receivedVersion :: string
  receivedRefCounts :: "(string \<times> int) list"
  contents :: Row

datatype RowPatch =
    PutRow RowID Row
  | DelRow RowID

record PatchToVersion =
  rowPatch :: RowPatch
  toVersion :: CVRVersion

text \<open>
  Modelled from the spec: reference counts (section 3 and 4.3.3), whose source is
  missing. The received counts are added, query by query (a count of 0 leaves a count
  as it is); a row is live when some count is positive.
\<close>

fun addCount :: "string \<Rightarrow> int \<Rightarrow> (string \<times> int) list \<Rightarrow> (string \<times> int) list" where
  "addCount q d [] = [(q, d)]"
| "addCount q d ((q', c) # rest) =
     (if q = q' then (q', c + d) # rest else (q', c) # addCount q d rest)"

fun addDeltas :: "(string \<times> int) list \<Rightarrow> (string \<times> int) list \<Rightarrow> (string \<times> int) list" where
  "addDeltas [] counts = counts"
| "addDeltas ((q, d) # ds) counts = addDeltas ds (addCount q d counts)"

definition live :: "(string \<times> int) list \<Rightarrow> bool" where
  "live counts = list_ex (\<lambda>e. snd e > 0) counts"

definition countsOfRecord :: "RowRecord \<Rightarrow> (string \<times> int) list" where
  "countsOfRecord r = (case refCounts r of None \<Rightarrow> [] | Some c \<Rightarrow> c)"

definition liveRecord :: "RowRecord \<Rightarrow> bool" where
  "liveRecord r = live (countsOfRecord r)"

text \<open>
  Modelled from the spec: the part of a \<open>CVRQueryDrivenUpdater\<close> that \<open>received\<close> works on
  (section 4.3 and 4.3.3), whose source is missing: \<open>newVersion\<close> as \<open>updatedVersion\<close>
  returns it, the ids of the queries given to \<open>trackQueries\<close> as executed or removed, the
  row records of the CVR as they were loaded, the row records with the pending writes
  of this update, and the reference counts of the rows received so far in this update.
  Nothing is written to the store before the flush, so a look-up of the existing record
  of a row reads the records as loaded.
\<close>

record QueryDrivenUpdater =
  updatedVersion :: CVRVersion
  removedOrExecutedQueryIDs :: "string list"
  existingRows :: "(RowID \<times> RowRecord) list"
  rowRecords :: "RowID \<rightharpoonup> RowRecord"
  receivedRows :: "RowID \<rightharpoonup> (string \<times> int) list"

definition tracking ::
  "CVRVersion \<Rightarrow> string list \<Rightarrow> (RowID \<times> RowRecord) list \<Rightarrow> QueryDrivenUpdater" where
  "tracking newVersion queryIDs stored =
     \<lparr>updatedVersion = newVersion, removedOrExecutedQueryIDs = queryIDs,
      existingRows = stored, rowRecords = map_of stored, receivedRows = Map.empty\<rparr>"

text \<open>
  Modelled from the spec: the look-up of the existing record of a received row, with the
  row-key change of section 4.3.3, whose source is missing. The record is the one
  stored under the received row id. When there is none, a row of the same table that
  is stored under another key and whose key columns all occur with their values in the
  received contents is the same row under its prior key: upstream provides the prior
  and the next key together, as in the test \<open>row key changed\<close> (part_008:3566-3594), where
  the contents received for the key \<open>{newID: '1foo'}\<close> carry \<open>id: '123'\<close>.
\<close>

definition keyWithin :: "Row \<Rightarrow> Row \<Rightarrow> bool" where
  "keyWithin key row = (key \<noteq> [] \<and> list_all (\<lambda>e. map_of row (fst e) = Some (snd e)) key)"

definition existingRecord ::
  "(RowID \<times> RowRecord) list \<Rightarrow> RowID \<Rightarrow> Row \<Rightarrow> (RowID \<times> RowRecord) option" where
  "existingRecord stored ident row =
     (case map_of stored ident of
        Some r \<Rightarrow> Some (ident, r)
      | None \<Rightarrow>
          find (\<lambda>e. rowSchema (fst e) = rowSchema ident \<and> rowTable (fst e) = rowTable ident
                     \<and> keyWithin (rowKey (fst e)) row) stored)"

definition existingOf :: "QueryDrivenUpdater \<Rightarrow> RowID \<times> RowUpdate \<Rightarrow> (RowID \<times> RowRecord) option" where
  "existingOf s e = existingRecord (existingRows s) (fst e) (contents (snd e))"

text \<open>
  Modelled from the spec: the new reference counts of a received row (section 4.3.3),
  whose source is missing. The received counts are added to the counts that the existing
  row record holds. Two cases that the spec's sentence does not tell apart are decided
  by the tests. The counts that the existing record holds for a query that is executed or
  removed in this update are stale and are left out, since the query reports its rows
  anew: in \<open>new transformation hash\<close> a row stored with \<open>{oneHash: 1, twoHash: 1}\<close> and
  received with \<open>{oneHash: 1}\<close> keeps \<open>{oneHash: 1, twoHash: 1}\<close> (part_008:1800-1812,
  2046-2057), and \<open>unchanged queries\<close> writes no row (part_008:3259-3361). And a row
  received again in the same update adds to the counts of its earlier receipt: in
  \<open>desired to got\<close> the row received twice with \<open>{oneHash: 1}\<close> ends with
  \<open>{oneHash: 2, twoHash: 1}\<close> (part_008:1659-1670).
\<close>

definition baseCounts :: "QueryDrivenUpdater \<Rightarrow> RowID \<times> RowUpdate \<Rightarrow> (string \<times> int) list" where
  "baseCounts s e =
     (case receivedRows s (fst e) of
        Some previouslyReceived \<Rightarrow> previouslyReceived
      | None \<Rightarrow>
          (case existingOf s e of
             None \<Rightarrow> []
           | Some old \<Rightarrow>
               filter (\<lambda>c. fst c \<notin> set (removedOrExecutedQueryIDs s))
                 (countsOfRecord (snd old))))"

definition mergedCounts :: "QueryDrivenUpdater \<Rightarrow> RowID \<times> RowUpdate \<Rightarrow> (string \<times> int) list" where
  "mergedCounts s e = addDeltas (receivedRefCounts (snd e)) (baseCounts s e)"

text \<open>
  Modelled from the spec: the \<open>patchVersion\<close> of a received row (section 4.3.3), whose
  source is missing. It is set to \<open>newVersion\<close> when the received row version is greater
  than the stored one or the row crosses between dead and live, and is preserved
  otherwise; a row without a record has no \<open>patchVersion\<close> to preserve.
\<close>

definition effectivePatchVersion :: "QueryDrivenUpdater \<Rightarrow> RowID \<times> RowUpdate \<Rightarrow> CVRVersion" where
  "effectivePatchVersion s e =
     (case existingOf s e of
        None \<Rightarrow> updatedVersion s
      | Some old \<Rightarrow>
          if rowVersion (snd old) < receivedVersion (snd e)
             \<or> liveRecord (snd old) \<noteq> live (mergedCounts s e)
          then updatedVersion s
          else patchVersion (snd old))"

text \<open>
  Modelled from the spec: \<open>CVRQueryDrivenUpdater.received\<close> (section 4.3.3), whose source
  is missing, one row at a time. The record is written under the received row id, in
  place of the record under the prior key if the key changed. Records are created on
  first emission (section 3): a row that has no record and is not live after the update
  leaves none, as the second row of \<open>advance with delete that cancels out add\<close> does
  (part_008:3807-3827, 3892-3911).

  A put patch goes out at the row's effective \<open>patchVersion\<close> for every received row
  that is live after the update. The spec asks for it when the row becomes live or
  changes its version, and adds that the \<open>patchVersion\<close> may be older than \<open>newVersion\<close>
  if the row was already present at that version; that last case is a row that neither
  becomes live nor changes its version, and the tests expect its put: in \<open>desired to
  got\<close> a row stored live at version 03 and received at 03 is put at its stored
  \<open>patchVersion\<close> 1a0, and is put again when it is received again
  (part_008:1347-1372, 1415-1439; likewise 1800-1824, 2329-2377, 3259-3308).
\<close>

definition receivedRow ::
  "QueryDrivenUpdater \<Rightarrow> RowID \<times> RowUpdate \<Rightarrow> QueryDrivenUpdater \<times> PatchToVersion list" where
  "receivedRow s e =
     (let ident = fst e; u = snd e;
          existing = existingOf s e;
          merged = mergedCounts s e;
          newPatchVersion = effectivePatchVersion s e;
          s1 = s\<lparr>receivedRows := (receivedRows s)(ident \<mapsto> merged)\<rparr>
      in if existing = None \<and> \<not> live merged
         then (s1\<lparr>rowRecords := (rowRecords s)(ident := None)\<rparr>, [])
         else (s1\<lparr>rowRecords :=
                     ((case existing of
                         None \<Rightarrow> rowRecords s
                       | Some old \<Rightarrow> (rowRecords s)(fst old := None))
                     )(ident \<mapsto> \<lparr>rowVersion = receivedVersion u,
                                  patchVersion = newPatchVersion,
                                  refCounts = Some merged\<rparr>)\<rparr>,
               if live merged
               then [\<lparr>rowPatch = PutRow ident (contents u), toVersion = newPatchVersion\<rparr>]
               else []))"

text \<open>
  Modelled from the spec: \<open>received\<close> on the map of rows of one call, given by its
  entries; the rows are processed one after the other and the patches are collected.
\<close>

fun received ::
  "QueryDrivenUpdater \<Rightarrow> (RowID \<times> RowUpdate) list \<Rightarrow>
   QueryDrivenUpdater \<times> PatchToVersion list" where
  "received s [] = (s, [])"
| "received s (e # es) =
     (let (s1, ps1) = receivedRow s e;
          (s2, ps2) = received s1 es
      in (s2, ps1 @ ps2))"

subsection \<open>Updaters and flush\<close>

text \<open>
  Modelled from the spec: the instance row of a CVR in the store (section 6) and the
  base of the three updaters (section 4.3), whose source is missing. An updater keeps
  the version it loaded (\<open>expectedVersion\<close>), \<open>newVersion\<close>, which starts there, and the
  epoch \<open>(owner, grantedAt)\<close> it loaded under.
\<close>

record Instance =
  instanceVersion :: CVRVersion
  owner :: string
  grantedAt :: int
  lastActive :: int

record Updater =
  expectedVersion :: CVRVersion
  newVersion :: CVRVersion
  loadedOwner :: string
  loadedGrantedAt :: int

text \<open>
  Modelled from the spec: how an updater moves \<open>newVersion\<close> (section 4.3), whose source is
  missing. A change of the configuration or of the queries advances \<open>newVersion\<close> to
  \<open>nextMinor expectedVersion\<close>, once per flush: a later change finds the version
  already moved and leaves it. The query-driven updater is entered with a target state
  version and advances to it when it is greater than the state version it loaded.
\<close>

definition ensureNewVersion :: "Updater \<Rightarrow> Updater" where
  "ensureNewVersion u =
     (if newVersion u = expectedVersion u
      then u\<lparr>newVersion := nextMinor (expectedVersion u)\<rparr>
      else u)"

definition enterStateVersion :: "string \<Rightarrow> Updater \<Rightarrow> Updater" where
  "enterStateVersion target u =
     (if stateVersion (newVersion u) < target
      then u\<lparr>newVersion := advance (newVersion u) target\<rparr>
      else u)"

text \<open>
  Modelled from the spec: the three updaters (section 4.3.1 to 4.3.3), whose source is
  missing, by what they do to the version. \<open>CVRUpdater\<close> records presence only. The
  operations of \<open>CVRConfigDrivenUpdater\<close> (\<open>putDesiredQueries\<close>, \<open>deleteDesiredQueries\<close>,
  \<open>clearDesiredQueries\<close>) are given by whether each changed the configuration;
  \<open>CVRQueryDrivenUpdater\<close> is given by its target state version and by whether each
  tracked query was an effective change (a removal, a first hydration, a new
  transformation hash).
\<close>

datatype UpdaterRun =
    CVRUpdater
  | CVRConfigDrivenUpdater "bool list"
  | CVRQueryDrivenUpdater string "bool list"

definition edit :: "bool \<Rightarrow> Updater \<Rightarrow> Updater" where
  "edit changed u = (if changed then ensureNewVersion u else u)"

definition runUpdater :: "UpdaterRun \<Rightarrow> Updater \<Rightarrow> Updater" where
  "runUpdater run u =
     (case run of
        CVRUpdater \<Rightarrow> u
      | CVRConfigDrivenUpdater edits \<Rightarrow> fold edit edits u
      | CVRQueryDrivenUpdater target edits \<Rightarrow> fold edit edits (enterStateVersion target u))"

text \<open>
  Modelled from the spec: \<open>flush\<close> (section 4.2), whose source is missing. The flush
  verifies that the stored version is the expected one and that the epoch is still the
  one loaded, and fails with \<open>ConcurrentModificationException\<close> or \<open>OwnershipError\<close>
  otherwise; it then writes the new version and bumps \<open>lastActive\<close>, in one transaction.
\<close>

datatype FlushError =
    OwnershipError
  | ConcurrentModificationException

definition flush :: "Updater \<Rightarrow> int \<Rightarrow> Instance \<Rightarrow> FlushError + Instance" where
  "flush u now inst =
     (if instanceVersion inst \<noteq> expectedVersion u
      then Inl ConcurrentModificationException
      else if owner inst \<noteq> loadedOwner u \<or> grantedAt inst \<noteq> loadedGrantedAt u
      then Inl OwnershipError
      else Inr (inst\<lparr>instanceVersion := newVersion u, lastActive := now\<rparr>))"

text \<open>
  One update of a CVR: an updater is made from the version and the epoch it loaded, does
  its work and is flushed. In a history of updates on one CVR a failed flush leaves
  the stored instance as it was. \<open>flushedVersions\<close> lists \<open>cvr.version\<close> after each
  successful flush.
\<close>

record Update =
  run :: UpdaterRun
  loadedVersion :: CVRVersion
  updateOwner :: string
  updateGrantedAt :: int
  flushedAt :: int

definition updaterOf :: "Update \<Rightarrow> Updater" where
  "updaterOf up =
     runUpdater (run up)
       \<lparr>expectedVersion = loadedVersion up, newVersion = loadedVersion up,
        loadedOwner = updateOwner up, loadedGrantedAt = updateGrantedAt up\<rparr>"

definition flushUpdate :: "Update \<Rightarrow> Instance \<Rightarrow> FlushError + Instance" where
  "flushUpdate up inst = flush (updaterOf up) (flushedAt up) inst"

fun flushedVersions :: "Instance \<Rightarrow> Update list \<Rightarrow> CVRVersion list" where
  "flushedVersions inst [] = []"
| "flushedVersions inst (up # rest) =
     (case flushUpdate up inst of
        Inl e \<Rightarrow> flushedVersions inst rest
      | Inr inst' \<Rightarrow> instanceVersion inst' # flushedVersions inst' rest)"

text \<open>
  The words of the spec for an update that changes something: its updater changed the
  configuration, tracked an effective change of a query, or was entered with a state
  version greater than the one it loaded. The updater that records presence changes
  nothing.
\<close>

definition changesSomething :: "Update \<Rightarrow> bool" where
  "changesSomething up =
     (case run up of
        CVRUpdater \<Rightarrow> False
      | CVRConfigDrivenUpdater edits \<Rightarrow> True \<in> set edits
      | CVRQueryDrivenUpdater target edits \<Rightarrow>
          stateVersion (loadedVersion up) < target \<or> True \<in> set edits)"

text \<open>
  The successful updates of a history, in order, each with the version before it and the
  version after it.
\<close>

fun flushes :: "Instance \<Rightarrow> Update list \<Rightarrow> (CVRVersion \<times> Update \<times> CVRVersion) list" where
  "flushes inst [] = []"
| "flushes inst (up # rest) =
     (case flushUpdate up inst of
        Inl e \<Rightarrow> flushes inst rest
      | Inr inst' \<Rightarrow> (instanceVersion inst, up, instanceVersion inst') # flushes inst' rest)"

section \<open>Concrete inputs\<close>

text \<open>
  An instance of the parameters of \<open>keys.ts\<close>, to run the definitions on concrete
  inputs: validation lets strings, numbers and booleans through, key values are
  converted as JavaScript converts them, the array of key values is written between
  brackets, and a marker stands in front of the hashed text in place of the hash.
\<close>

fun validPrimaryKeyValue :: "JSONValue option \<Rightarrow> JSONValue option" where
  "validPrimaryKeyValue (Some (JStr s)) = Some (JStr s)"
| "validPrimaryKeyValue (Some (JNum n)) = Some (JNum n)"
| "validPrimaryKeyValue (Some (JBool b)) = Some (JBool b)"
| "validPrimaryKeyValue _ = None"

fun primitiveToString :: "JSONValue \<Rightarrow> string" where
  "primitiveToString (JStr s) = s"
| "primitiveToString (JNum n) = numberToString n"
| "primitiveToString (JBool b) = (if b then ''true'' else ''false'')"
| "primitiveToString _ = []"

fun commaSeparated :: "string list \<Rightarrow> string" where
  "commaSeparated [] = []"
| "commaSeparated [x] = x"
| "commaSeparated (x # y # rest) = x @ '','' @ commaSeparated (y # rest)"

definition bracketed :: "JSONValue list \<Rightarrow> string" where
  "bracketed values = ''['' @ commaSeparated (map primitiveToString values) @ '']''"

definition marked :: "string \<Rightarrow> string" where
  "marked text = ''#'' @ text"

definition sampleDeps :: Deps where
  "sampleDeps = \<lparr>parse_pk = validPrimaryKeyValue, to_string = primitiveToString,
                  json_stringify = bracketed, h128 = marked\<rparr>"

definition issuesSchema :: Schema where
  "issuesSchema = [''issues'' \<mapsto> \<lparr>tableName = ''issues'', primaryKey = [''id'']\<rparr>]"

text \<open>
  Pokes, with the cookies of the poke test of replicache.test.ts: the first starts from
  null and ends at c1; the second continues it; the repeated one starts from null
  again and the overlapping one from c0, below the end of the first; the later one
  starts at c5, above it; the last one names a table that the schema does not have.
\<close>

definition firstPoke :: PokeAccumulator where
  "firstPoke =
     \<lparr>pokeStart = \<lparr>pokeID = ''p1'', baseCookie = None, cookie = ''c1''\<rparr>,
      parts = [\<lparr>partPokeID = ''p1'',
                lastMutationIDChanges = Some [(''client'', 1)],
                clientsPatch = Some [ClientsPut ''client''],
                desiredQueriesPatches = None,
                gotQueriesPatch = None,
                rowsPatch = Some [RowPut ''issues'' [(''id'', JStr ''i1'')]]\<rparr>]\<rparr>"

definition secondPoke :: PokeAccumulator where
  "secondPoke =
     \<lparr>pokeStart = \<lparr>pokeID = ''p2'', baseCookie = Some ''c1'', cookie = ''c2''\<rparr>,
      parts = [\<lparr>partPokeID = ''p2'',
                lastMutationIDChanges = Some [(''client'', 2)],
                clientsPatch = None,
                desiredQueriesPatches = None,
                gotQueriesPatch = Some [QueriesDel ''h1''],
                rowsPatch = None\<rparr>]\<rparr>"

definition repeatedPoke :: PokeAccumulator where
  "repeatedPoke =
     \<lparr>pokeStart = \<lparr>pokeID = ''p3'', baseCookie = None, cookie = ''c1''\<rparr>,
      parts = []\<rparr>"

definition overlappingPoke :: PokeAccumulator where
  "overlappingPoke =
     \<lparr>pokeStart = \<lparr>pokeID = ''p4'', baseCookie = Some ''c0'', cookie = ''c3''\<rparr>,
      parts = []\<rparr>"

definition laterPoke :: PokeAccumulator where
  "laterPoke =
     \<lparr>pokeStart = \<lparr>pokeID = ''p5'', baseCookie = Some ''c5'', cookie = ''c6''\<rparr>,
      parts = []\<rparr>"

definition strayRowPoke :: PokeAccumulator where
  "strayRowPoke =
     \<lparr>pokeStart = \<lparr>pokeID = ''p6'', baseCookie = None, cookie = ''c1''\<rparr>,
      parts = [\<lparr>partPokeID = ''p6'',
                lastMutationIDChanges = None,
                clientsPatch = None,
                desiredQueriesPatches = None,
                gotQueriesPatch = None,
                rowsPatch = Some [RowDel ''comments'' [(''id'', JStr ''c9'')]]\<rparr>]\<rparr>"

text \<open>A store that keeps the operations it was given, and a client that has no cookie yet.\<close>

definition logOp :: "PatchOperationInternal \<Rightarrow> PatchOperationInternal list \<Rightarrow> PatchOperationInternal list" where
  "logOp op ops = ops @ [op]"

definition freshClient :: "PatchOperationInternal list Replica" where
  "freshClient = \<lparr>clientCookie = None, lastMutationIDs = Map.empty, kv = []\<rparr>"

definition mergedFirstSecond :: PokeInternal where
  "mergedFirstSecond =
     \<lparr>pokeBaseCookie = None,
      pullResponse =
        \<lparr>mergedLastMutationIDChanges = [''client'' \<mapsto> 2],
         patch = [OpPut ''c/client'' (JBool True),
                  OpPut ''e/issues/i1'' (JObj [(''id'', JStr ''i1'')]),
                  OpDel ''g/h1''],
         responseCookie = ''c2''\<rparr>\<rparr>"

definition clientAfterSecond :: "PatchOperationInternal list Replica" where
  "clientAfterSecond =
     \<lparr>clientCookie = Some ''c2'', lastMutationIDs = [''client'' \<mapsto> 2],
      kv = [OpPut ''c/client'' (JBool True),
            OpPut ''e/issues/i1'' (JObj [(''id'', JStr ''i1'')]),
            OpDel ''g/h1'']\<rparr>"

definition clientAfterFirst :: "PatchOperationInternal list Replica" where
  "clientAfterFirst =
     \<lparr>clientCookie = Some ''c1'', lastMutationIDs = [''client'' \<mapsto> 1],
      kv = [OpPut ''c/client'' (JBool True),
            OpPut ''e/issues/i1'' (JObj [(''id'', JStr ''i1'')])]\<rparr>"

definition clientAfterOverlap :: "PatchOperationInternal list Replica" where
  "clientAfterOverlap =
     \<lparr>clientCookie = Some ''c3'', lastMutationIDs = [''client'' \<mapsto> 1],
      kv = [OpPut ''c/client'' (JBool True),
            OpPut ''e/issues/i1'' (JObj [(''id'', JStr ''i1'')])]\<rparr>"

definition compoundKeyRow :: Row where
  "compoundKeyRow = [(''project'', JStr ''zero''), (''number'', JNum 42), (''title'', JStr ''t'')]"

text \<open>A delegate, and the records of a success followed by a failure.\<close>

definition steadyDelegate :: ConnectionLoopDelegate where
  "steadyDelegate = \<lparr>debounceDelay = 10, watchdogTimer = None, maxConnections = 2,
                      maxDelayMs = 60000, minDelayMs = 30\<rparr>"

definition failedLast :: "SendRecord list" where
  "failedLast = [\<lparr>duration = 500, ok = True\<rparr>, \<lparr>duration = 20, ok = False\<rparr>]"

definition recoveredLast :: "SendRecord list" where
  "recoveredLast = [\<lparr>duration = 20, ok = False\<rparr>, \<lparr>duration = 500, ok = True\<rparr>]"

definition steadyRecords :: "SendRecord list" where
  "steadyRecords = [\<lparr>duration = 300, ok = True\<rparr>, \<lparr>duration = 20, ok = False\<rparr>,
                    \<lparr>duration = 105, ok = True\<rparr>, \<lparr>duration = 200, ok = True\<rparr>]"

text \<open>
  Records in which failures lie between the successes, so that the last nine records hold
  fewer successes than the last nine successful sends, and a single success of odd
  duration.
\<close>

definition interruptedRecords :: "SendRecord list" where
  "interruptedRecords =
     replicate 3 \<lparr>duration = 100, ok = True\<rparr> @ replicate 5 \<lparr>duration = 1, ok = False\<rparr>
     @ replicate 3 \<lparr>duration = 500, ok = True\<rparr>"

definition oddRecord :: "SendRecord list" where
  "oddRecord = [\<lparr>duration = 105, ok = True\<rparr>]"

definition closedWithWaiter :: "LoopEvent list" where
  "closedWithWaiter = [Send True, Send False, Close]"

definition closedThenResumed :: "LoopEvent list" where
  "closedThenResumed = [Send True, Close, Resume 0]"

text \<open>
  A room at version 10 in which client c1 is connected on socket 1 with last mutation id
  5, and two requests of that client: one behind the room, one ahead in its mutation id.
  The comparison of versions puts null first.
\<close>

definition nullFirst :: "int option \<Rightarrow> int option \<Rightarrow> int" where
  "nullFirst a b =
     (case a of
        None \<Rightarrow> (case b of None \<Rightarrow> 0 | Some y \<Rightarrow> - 1)
      | Some x \<Rightarrow> (case b of None \<Rightarrow> 1 | Some y \<Rightarrow> x - y))"

definition roomWithClient :: Room where
  "roomWithClient =
     \<lparr>sentFrames = (\<lambda>ws. []),
      closedSockets = {},
      listeners = (\<lambda>ws. []),
      clients = [''c1'' \<mapsto> \<lparr>socket = 1, clientUserData = ''u1'', clockBehindByMs = None,
                               pending = []\<rparr>],
      clientRecords = [''c1'' \<mapsto> \<lparr>recordBaseCookie = Some 7, lastMutationID = 5\<rparr>],
      connectedClients = {''c1''},
      storedVersion = Some 10\<rparr>"

definition reconnectRequest :: ConnectRequest where
  "reconnectRequest = \<lparr>clientID = ''c1'', userData = ''u1'', requestBaseCookie = Some 7,
                         timestamp = 1000, lmid = 3\<rparr>"

definition aheadRequest :: ConnectRequest where
  "aheadRequest = \<lparr>clientID = ''c1'', userData = ''u1'', requestBaseCookie = Some 7,
                     timestamp = 1000, lmid = 9\<rparr>"

text \<open>
  The versions, rows and updates of the tests of \<open>received\<close> in part_008. The row ids of
  the tests are rows of \<open>public.issues\<close> with the key column \<open>id\<close>, or \<open>newID\<close> after the
  change of key.
\<close>

definition issueRow :: "string \<Rightarrow> RowID" where
  "issueRow k = \<lparr>rowSchema = ''public'', rowTable = ''issues'', rowKey = [(''id'', JStr k)]\<rparr>"

definition rekeyedRow :: "string \<Rightarrow> RowID" where
  "rekeyedRow k = \<lparr>rowSchema = ''public'', rowTable = ''issues'', rowKey = [(''newID'', JStr k)]\<rparr>"

definition cvrVersion :: "string \<Rightarrow> nat \<Rightarrow> CVRVersion" where
  "cvrVersion sv minor = \<lparr>stateVersion = sv, minorVersion = minor\<rparr>"

definition rowRecord :: "string \<Rightarrow> CVRVersion \<Rightarrow> (string \<times> int) list option \<Rightarrow> RowRecord" where
  "rowRecord rv pv counts = \<lparr>rowVersion = rv, patchVersion = pv, refCounts = counts\<rparr>"

definition rowUpdate :: "string \<Rightarrow> (string \<times> int) list \<Rightarrow> Row \<Rightarrow> RowUpdate" where
  "rowUpdate rv counts row = \<lparr>receivedVersion = rv, receivedRefCounts = counts, contents = row\<rparr>"

definition putPatch :: "RowID \<Rightarrow> Row \<Rightarrow> CVRVersion \<Rightarrow> PatchToVersion" where
  "putPatch ident row v = \<lparr>rowPatch = PutRow ident row, toVersion = v\<rparr>"

text \<open>\<open>desired to got\<close> (part_008:1208-1673): the updater after \<open>trackQueries\<close>.\<close>

definition desiredToGot :: QueryDrivenUpdater where
  "desiredToGot =
     tracking (cvrVersion ''1aa'' 1) [''oneHash'']
       [(issueRow ''123'', rowRecord ''03'' (cvrVersion ''1a0'' 0) (Some [(''twoHash'', 1)])),
        (issueRow ''321'', rowRecord ''03'' (cvrVersion ''1a0'' 0) (Some [(''twoHash'', 1)])),
        (issueRow ''888'', rowRecord ''03'' (cvrVersion ''19z'' 0) None),
        (issueRow ''777'', rowRecord ''03'' (cvrVersion ''189'' 0) None),
        (issueRow ''456'', rowRecord ''03'' (cvrVersion ''1aa'' 0) None)]"

definition shouldShowUp :: "(RowID \<times> RowUpdate) list" where
  "shouldShowUp =
     [(issueRow ''123'',
       rowUpdate ''03'' [(''oneHash'', 1)] [(''id'', JStr ''should-show-up-in-patch'')])]"

definition sameAndNew :: "(RowID \<times> RowUpdate) list" where
  "sameAndNew =
     [(issueRow ''321'',
       rowUpdate ''03'' [(''oneHash'', 1)] [(''id'', JStr ''same column selection as twoHash'')]),
      (issueRow ''888'',
       rowUpdate ''09'' [(''oneHash'', 1)] [(''id'', JStr ''new version patch'')])]"

text \<open>
  \<open>new transformation hash\<close>, \<open>multiple executed queries\<close> and \<open>unchanged queries\<close>
  (part_008:1676, 2184, 3050) start from the same row records.
\<close>

definition gotRows :: "(RowID \<times> RowRecord) list" where
  "gotRows =
     [(issueRow ''123'',
       rowRecord ''03'' (cvrVersion ''1aa'' 1) (Some [(''oneHash'', 1), (''twoHash'', 1)])),
      (issueRow ''321'', rowRecord ''03'' (cvrVersion ''1a0'' 0) (Some [(''twoHash'', 1)])),
      (issueRow ''888'', rowRecord ''09'' (cvrVersion ''1aa'' 1) (Some [(''oneHash'', 1)])),
      (issueRow ''777'', rowRecord ''03'' (cvrVersion ''189'' 0) None),
      (issueRow ''456'', rowRecord ''03'' (cvrVersion ''1ba'' 0) None)]"

definition existingPatch :: "string \<Rightarrow> (RowID \<times> RowUpdate) list" where
  "existingPatch query =
     [(issueRow ''123'', rowUpdate ''03'' [(query, 1)] [(''id'', JStr ''existing-patch'')])]"

definition movedReference :: "string \<Rightarrow> (RowID \<times> RowUpdate) list" where
  "movedReference query = [(issueRow ''321'', rowUpdate ''09'' [(query, 1)] [])]"

text \<open>\<open>row key changed\<close> (part_008:3491-3721).\<close>

definition rowKeyChanged :: QueryDrivenUpdater where
  "rowKeyChanged =
     tracking (cvrVersion ''1bb'' 0) [''oneHash'']
       [(issueRow ''123'', rowRecord ''03'' (cvrVersion ''1aa'' 1) (Some [(''oneHash'', 1)])),
        (issueRow ''321'', rowRecord ''03'' (cvrVersion ''1a0'' 0) (Some [(''oneHash'', 1)]))]"

definition replacesRow :: "(RowID \<times> RowUpdate) list" where
  "replacesRow =
     [(rekeyedRow ''1foo'',
       rowUpdate ''03'' [(''oneHash'', 1)]
         [(''id'', JStr ''123''), (''newID'', JStr ''1foo''), (''value'', JStr ''foobar'')])]"

definition newToCVR :: "(RowID \<times> RowUpdate) list" where
  "newToCVR =
     [(rekeyedRow ''3baz'',
       rowUpdate ''09'' [(''oneHash'', 1)]
         [(''id'', JStr ''888''), (''newID'', JStr ''3baz''), (''value'', JStr ''barfoo'')])]"

text \<open>
  \<open>advance with delete that cancels out add\<close> (part_008:3723-3913): no query is tracked, and
  the counts received are 0.
\<close>

definition cancelsOut :: QueryDrivenUpdater where
  "cancelsOut =
     tracking (cvrVersion ''1ba'' 0) []
       [(issueRow ''123'', rowRecord ''03'' (cvrVersion ''1a0'' 0) (Some [(''oneHash'', 1)])),
        (issueRow ''321'', rowRecord ''03'' (cvrVersion ''1a0'' 0) (Some [(''oneHash'', 1)]))]"

definition unchangedCount :: "RowID \<times> RowUpdate" where
  "unchangedCount =
     (issueRow ''123'',
      rowUpdate ''04'' [(''oneHash'', 0)] [(''id'', JStr ''should-show-up-in-patch'')])"

definition neverReferenced :: "RowID \<times> RowUpdate" where
  "neverReferenced =
     (issueRow ''888'',
      rowUpdate ''01'' [(''oneHash'', 0)] [(''id'', JStr ''should-not-show-up-in-patch'')])"

text \<open>
  The instance of \<open>update active time\<close> (part_008:384-492) and three updates of it: one
  that records presence, one that changes the desired queries, and a hydration at a new
  state version.
\<close>

definition activeInstance :: Instance where
  "activeInstance = \<lparr>instanceVersion = cvrVersion ''1a9'' 2, owner = ''my-task'',
                       grantedAt = 1709251200000, lastActive = 1713830400000\<rparr>"

definition presenceOnly :: Update where
  "presenceOnly = \<lparr>run = CVRUpdater, loadedVersion = cvrVersion ''1a9'' 2,
                     updateOwner = ''my-task'', updateGrantedAt = 1709251200000,
                     flushedAt = 1713916800000\<rparr>"

definition configChange :: Update where
  "configChange = \<lparr>run = CVRConfigDrivenUpdater [True, False, True],
                     loadedVersion = cvrVersion ''1a9'' 2,
                     updateOwner = ''my-task'', updateGrantedAt = 1709251200000,
                     flushedAt = 1713916800001\<rparr>"

definition hydration :: Update where
  "hydration = \<lparr>run = CVRQueryDrivenUpdater ''1ba'' [True], loadedVersion = cvrVersion ''1a9'' 3,
                  updateOwner = ''my-task'', updateGrantedAt = 1709251200000,
                  flushedAt = 1713916800002\<rparr>"

text \<open>
  The update of \<open>unchanged queries\<close> (part_008:3247-3258): the queries are executed again at
  the state version and with the transformation hashes that the CVR already has.
\<close>

definition unchangedQueries :: Update where
  "unchangedQueries = \<lparr>run = CVRQueryDrivenUpdater ''1a9'' [False, False],
                         loadedVersion = cvrVersion ''1a9'' 2,
                         updateOwner = ''my-task'', updateGrantedAt = 1709251200000,
                         flushedAt = 1713916800003\<rparr>"

definition receivingHandler :: PokeHandler where
  "receivingHandler =
     \<lparr>receivingPoke = Some \<lparr>pokeStart = pokeStart firstPoke, parts = []\<rparr>,
      pokeBuffer = [secondPoke],
      pokePlaybackLoopRunning = True,
      onPokeErrorCalls = 0,
      rafCalls = 1\<rparr>"

section \<open>Pokes: what the handler and the merge guarantee\<close>

text \<open>
  C10. When \<open>handlePokeStart\<close> arrives while a poke is still being received, the handler
  drops the poke in progress and every buffered poke, calls \<open>onPokeError\<close> once, and does
  not start accumulating the new poke; nothing else in the handler changes.
\<close>

theorem handlePokeStart_while_receiving:
  assumes "receivingPoke h = Some r"
  shows "receivingPoke (handlePokeStart ps h) = None
       \<and> pokeBuffer (handlePokeStart ps h) = []
       \<and> onPokeErrorCalls (handlePokeStart ps h) = onPokeErrorCalls h + 1
       \<and> pokePlaybackLoopRunning (handlePokeStart ps h) = pokePlaybackLoopRunning h
       \<and> rafCalls (handlePokeStart ps h) = rafCalls h"
  using assms by (simp add: handlePokeStart_def handlePokeError_def clear_def Let_def)

theorem handlePokeStart_while_receiving_witness:
  "receivingPoke receivingHandler = Some \<lparr>pokeStart = pokeStart firstPoke, parts = []\<rparr>
   \<and> receivingPoke (handlePokeStart (pokeStart overlappingPoke) receivingHandler) = None
   \<and> pokeBuffer (handlePokeStart (pokeStart overlappingPoke) receivingHandler) = []
   \<and> onPokeErrorCalls (handlePokeStart (pokeStart overlappingPoke) receivingHandler) = 1"
proof -
  have r: "receivingPoke receivingHandler = Some \<lparr>pokeStart = pokeStart firstPoke, parts = []\<rparr>"
    by (simp add: receivingHandler_def)
  from handlePokeStart_while_receiving[OF r, of "pokeStart overlappingPoke"] r
  show ?thesis by (simp add: receivingHandler_def)
qed

subsection \<open>The merge loop\<close>

lemma setLastMutationIDs_map_of:
  "setLastMutationIDs es m = m ++ map_of (rev (filter (\<lambda>e. fst e \<noteq> ''__proto__'') es))"
  by (induction es arbitrary: m) (auto simp: assign_def map_add_upd)

lemma map_of_filter_key:
  "P k \<Longrightarrow> map_of (filter (\<lambda>e. P (fst e)) xs) k = map_of xs k"
  by (induction xs) auto

lemma fold_upd_map_of:
  "fold (\<lambda>e ids. ids(fst e \<mapsto> snd e)) es m = m ++ map_of (rev es)"
  by (induction es arbitrary: m) (auto simp: map_add_upd)

lemma mergePart_eq:
  "mergePart D schema p (lm, pt) =
     (if rowsTranslate D schema p
      then Inr (lm ++ map_of (rev (filter (\<lambda>e. fst e \<noteq> ''__proto__'') (allChanges [p]))),
                pt @ partPatch D schema p)
      else Inl (case rowsPatch p of Some ops \<Rightarrow> projl (mapRows D schema ops)))"
  by (auto simp: mergePart_def rowsTranslate_def allChanges_def partPatch_def Let_def
      setLastMutationIDs_map_of split: option.splits sum.splits)

lemma mergeParts_ok:
  "list_all (rowsTranslate D schema) ps \<Longrightarrow>
   mergeParts D schema ps (lm, pt) =
     Inr (lm ++ map_of (rev (filter (\<lambda>e. fst e \<noteq> ''__proto__'') (allChanges ps))),
          pt @ concat (map (partPatch D schema) ps))"
proof (induction ps arbitrary: lm pt)
  case Nil
  then show ?case by (simp add: allChanges_def)
next
  case (Cons p ps)
  then show ?case
    by (simp add: mergePart_eq allChanges_def map_add_assoc)
qed

lemma mergeParts_fail:
  "\<not> list_all (rowsTranslate D schema) ps \<Longrightarrow> isl (mergeParts D schema ps acc)"
proof (induction ps arbitrary: acc)
  case Nil
  then show ?case by simp
next
  case (Cons p ps)
  obtain lm pt where acc: "acc = (lm, pt)" by (cases acc)
  show ?case
  proof (cases "rowsTranslate D schema p")
    case True
    with Cons show ?thesis by (simp add: acc mergePart_eq)
  next
    case False
    then show ?thesis by (simp add: acc mergePart_eq)
  qed
qed

lemma mergeLoop_ok:
  "list_all (rowsTranslate D schema) (allParts buf) \<Longrightarrow>
   \<not> hasGap buf \<Longrightarrow>
   (case prev of None \<Rightarrow> True | Some pp \<Rightarrow> buf \<noteq> [] \<longrightarrow> \<not> cookieGap (Some pp) (pokeStart (hd buf))) \<Longrightarrow>
   mergeLoop D schema buf prev (lm, pt) =
     Inr (lm ++ map_of (rev (filter (\<lambda>e. fst e \<noteq> ''__proto__'') (allChanges (allParts buf)))),
          pt @ concat (map (partPatch D schema) (allParts buf)))"
proof (induction buf arbitrary: prev lm pt)
  case Nil
  then show ?case by (simp add: allParts_def allChanges_def)
next
  case (Cons a buf)
  have parts_ok: "list_all (rowsTranslate D schema) (parts a)"
    and rest_ok: "list_all (rowsTranslate D schema) (allParts buf)"
    using Cons.prems(1) by (simp_all add: allParts_def)
  have nogap_here: "\<not> cookieGap prev (pokeStart a)"
    using Cons.prems(3) by (cases prev) (simp_all add: cookieGap_def)
  have nogap_rest: "\<not> hasGap buf"
    using Cons.prems(2) by (cases buf) simp_all
  have nxt: "case Some (pokeStart a) of None \<Rightarrow> True
             | Some pp \<Rightarrow> buf \<noteq> [] \<longrightarrow> \<not> cookieGap (Some pp) (pokeStart (hd buf))"
    using Cons.prems(2)
    by (cases buf) (auto simp: cookieGap_def less_option_def split: option.splits)
  show ?case
    using Cons.IH[OF rest_ok nogap_rest nxt] nogap_here
    by (simp add: mergeParts_ok[OF parts_ok] allParts_def allChanges_def)
qed


lemma hasGap_cookieGap:
  "baseCookie (pokeStart b) > Some (cookie (pokeStart a)) \<longleftrightarrow>
   cookieGap (Some (pokeStart a)) (pokeStart b)"
  by (auto simp: cookieGap_def less_option_def split: option.splits)

lemma mergeLoop_fail:
  "hasGap buf \<or> \<not> list_all (rowsTranslate D schema) (allParts buf) \<Longrightarrow>
   isl (mergeLoop D schema buf prev acc)"
proof (induction buf arbitrary: prev acc)
  case Nil
  then show ?case by (simp add: allParts_def)
next
  case (Cons a buf)
  show ?case
  proof (cases "cookieGap prev (pokeStart a)")
    case True
    then show ?thesis by simp
  next
    case nogap: False
    show ?thesis
    proof (cases "list_all (rowsTranslate D schema) (parts a)")
      case False
      then show ?thesis
        using mergeParts_fail[of D schema "parts a" acc] nogap
        by (auto split: sum.splits)
    next
      case True
      obtain lm pt where acc: "acc = (lm, pt)" by (cases acc)
      show ?thesis
      proof (cases buf)
        case Nil
        with Cons.prems True show ?thesis by (simp add: allParts_def)
      next
        case (Cons b rest)
        show ?thesis
        proof (cases "cookieGap (Some (pokeStart a)) (pokeStart b)")
          case True
          then show ?thesis
            using nogap \<open>list_all (rowsTranslate D schema) (parts a)\<close>
            by (simp add: acc Cons mergeParts_ok)
        next
          case False
          then have "hasGap buf \<or> \<not> list_all (rowsTranslate D schema) (allParts buf)"
            using Cons.prems \<open>list_all (rowsTranslate D schema) (parts a)\<close>
            by (auto simp: Cons allParts_def hasGap_cookieGap)
          from Cons.IH[OF this] show ?thesis
            using nogap \<open>list_all (rowsTranslate D schema) (parts a)\<close>
            by (simp add: acc mergeParts_ok)
        qed
      qed
    qed
  qed
qed

lemma chained_no_gap: "chained c buf \<Longrightarrow> \<not> hasGap buf"
proof (induction buf arbitrary: c)
  case Nil
  then show ?case by simp
next
  case (Cons a buf)
  then show ?case by (cases buf) (auto simp: less_option_def)
qed

lemma mergePokes_ok:
  assumes "buf \<noteq> []" "\<not> hasGap buf" "list_all (rowsTranslate D schema) (allParts buf)"
  shows "mergePokes D buf schema =
     Inr (Some \<lparr>pokeBaseCookie = baseCookie (pokeStart (hd buf)),
                pullResponse =
                  \<lparr>mergedLastMutationIDChanges =
                     map_of (rev (filter (\<lambda>e. fst e \<noteq> ''__proto__'') (allChanges (allParts buf)))),
                   patch = concat (map (partPatch D schema) (allParts buf)),
                   responseCookie = cookie (pokeStart (last buf))\<rparr>\<rparr>)"
proof -
  have "mergeLoop D schema buf None (Map.empty, []) =
     Inr (Map.empty ++ map_of (rev (filter (\<lambda>e. fst e \<noteq> ''__proto__'') (allChanges (allParts buf)))),
          [] @ concat (map (partPatch D schema) (allParts buf)))"
    using assms by (intro mergeLoop_ok) simp_all
  with assms(1) show ?thesis by (simp add: mergePokes_def)
qed

lemma mergePokes_Some:
  assumes "mergePokes D buf schema = Inr (Some merged)"
  shows "buf \<noteq> [] \<and> \<not> hasGap buf \<and> list_all (rowsTranslate D schema) (allParts buf)"
proof -
  have ne: "buf \<noteq> []"
    using assms by (auto simp: mergePokes_def)
  have "\<not> (hasGap buf \<or> \<not> list_all (rowsTranslate D schema) (allParts buf))"
  proof
    assume "hasGap buf \<or> \<not> list_all (rowsTranslate D schema) (allParts buf)"
    from mergeLoop_fail[OF this, of None "(Map.empty, [])"] assms ne
    show False by (auto simp: mergePokes_def split: sum.splits)
  qed
  with ne show ?thesis by simp
qed

subsection \<open>The pokes of a buffer applied one after the other\<close>

lemma applyPart_eq:
  "applyPart D schema step s p =
     (if rowsTranslate D schema p
      then Inr (s\<lparr>lastMutationIDs := lastMutationIDs s ++ map_of (rev (allChanges [p])),
                  kv := fold step (partPatch D schema p) (kv s)\<rparr>)
      else Inl (case rowsPatch p of Some ops \<Rightarrow> projl (mapRows D schema ops)))"
  by (auto simp: applyPart_def rowsTranslate_def allChanges_def partPatch_def fold_upd_map_of
      split: option.splits sum.splits)

lemma applyParts_ok:
  "applyParts D schema step s ps = Inr s' \<Longrightarrow>
   list_all (rowsTranslate D schema) ps
   \<and> s' = s\<lparr>lastMutationIDs := lastMutationIDs s ++ map_of (rev (allChanges ps)),
            kv := fold step (concat (map (partPatch D schema) ps)) (kv s)\<rparr>"
proof (induction ps arbitrary: s)
  case Nil
  then show ?case by (simp add: allChanges_def)
next
  case (Cons p ps)
  from Cons.prems have tr: "rowsTranslate D schema p"
    by (auto simp: applyPart_eq split: if_splits)
  define s1 where "s1 = s\<lparr>lastMutationIDs := lastMutationIDs s ++ map_of (rev (allChanges [p])),
                          kv := fold step (partPatch D schema p) (kv s)\<rparr>"
  from Cons.prems tr have rest: "applyParts D schema step s1 ps = Inr s'"
    by (simp add: applyPart_eq s1_def)
  from Cons.IH[OF rest] tr show ?case
    by (simp add: s1_def allChanges_def map_add_assoc)
qed

lemma applyOne_ok:
  assumes "applyOne D schema step s p = Inr s'"
  shows "baseCookie (pokeStart p) = clientCookie s
       \<and> list_all (rowsTranslate D schema) (parts p)
       \<and> s' = advanced D schema step s [p]"
proof -
  from assms have base: "baseCookie (pokeStart p) = clientCookie s"
    by (auto simp: applyOne_def split: if_splits)
  from assms base obtain s1 where
    s1: "applyParts D schema step s (parts p) = Inr s1"
    and s': "s' = s1\<lparr>clientCookie := Some (cookie (pokeStart p))\<rparr>"
    by (auto simp: applyOne_def split: sum.splits)
  from applyParts_ok[OF s1] s' base show ?thesis
    by (simp add: advanced_def allParts_def)
qed

lemma advanced_Cons:
  "advanced D schema step (advanced D schema step s [p]) ps = advanced D schema step s (p # ps)"
  by (simp add: advanced_def allParts_def allChanges_def map_of_append)

lemma applyInOrder_ok:
  "applyInOrder D schema step s buf = Inr s' \<Longrightarrow>
   chained (clientCookie s) buf \<and> list_all (rowsTranslate D schema) (allParts buf)
   \<and> s' = advanced D schema step s buf"
proof (induction buf arbitrary: s)
  case Nil
  then show ?case by (simp add: advanced_def allParts_def)
next
  case (Cons p ps)
  from Cons.prems obtain s1 where
    s1: "applyOne D schema step s p = Inr s1"
    and rest: "applyInOrder D schema step s1 ps = Inr s'"
    by (auto split: sum.splits)
  note one = applyOne_ok[OF s1]
  note ih = Cons.IH[OF rest]
  have c1: "clientCookie s1 = Some (cookie (pokeStart p))"
    using one by (simp add: advanced_def)
  show ?case
    using one ih c1 advanced_Cons[of D schema step s p ps]
    by (simp add: allParts_def)
qed

subsection \<open>Cookies of the merged poke and the cookie gap\<close>

text \<open>
  C4, as the spec has it, fails: \<open>mergePokes\<close> also throws where no poke starts above the
  cookie of the one before it. A single poke whose row patch names a table that the
  schema does not have makes \<open>schema.tables[op.tableName].primaryKey\<close> throw.
\<close>

theorem mergePokes_throws_without_gap:
  "isl (mergePokes sampleDeps [strayRowPoke] issuesSchema) \<and> \<not> hasGap [strayRowPoke]"
  by (simp add: mergePokes_def cookieGap_def mergePart_def keyOf_def sampleDeps_def
      issuesSchema_def strayRowPoke_def)

text \<open>
  C4, amended. For a non-empty buffer \<open>mergePokes\<close> throws exactly when some poke's
  \<open>baseCookie\<close> is greater than the cookie of the poke just before it, or some row
  operation cannot be given its key (its table is not in the schema, or a key value
  fails validation). When it returns, it returns a poke whose \<open>baseCookie\<close> is the first
  poke's and whose cookie is the last poke's.
\<close>

theorem mergePokes_throws_iff:
  assumes "buf \<noteq> []"
  shows "(isl (mergePokes D buf schema) \<longleftrightarrow>
            hasGap buf \<or> \<not> list_all (rowsTranslate D schema) (allParts buf))
       \<and> (\<forall>r. mergePokes D buf schema = Inr r \<longrightarrow>
             (\<exists>merged. r = Some merged
                \<and> pokeBaseCookie merged = baseCookie (pokeStart (hd buf))
                \<and> responseCookie (pullResponse merged) = cookie (pokeStart (last buf))))"
proof (cases "hasGap buf \<or> \<not> list_all (rowsTranslate D schema) (allParts buf)")
  case True
  from mergeLoop_fail[OF this, of None "(Map.empty, [])"]
  have "isl (mergePokes D buf schema)"
    using assms by (auto simp: mergePokes_def split: sum.splits)
  with True show ?thesis by (auto simp: isl_def)
next
  case False
  with assms have "mergePokes D buf schema =
     Inr (Some \<lparr>pokeBaseCookie = baseCookie (pokeStart (hd buf)),
                pullResponse =
                  \<lparr>mergedLastMutationIDChanges =
                     map_of (rev (filter (\<lambda>e. fst e \<noteq> ''__proto__'') (allChanges (allParts buf)))),
                   patch = concat (map (partPatch D schema) (allParts buf)),
                   responseCookie = cookie (pokeStart (last buf))\<rparr>\<rparr>)"
    by (intro mergePokes_ok) simp_all
  with False show ?thesis by simp
qed

theorem mergePokes_throws_iff_witness:
  "[firstPoke, secondPoke] \<noteq> []
   \<and> \<not> hasGap [firstPoke, secondPoke]
   \<and> list_all (rowsTranslate sampleDeps issuesSchema) (allParts [firstPoke, secondPoke])
   \<and> mergePokes sampleDeps [firstPoke, secondPoke] issuesSchema = Inr (Some mergedFirstSecond)
   \<and> pokeBaseCookie mergedFirstSecond = baseCookie (pokeStart firstPoke)
   \<and> responseCookie (pullResponse mergedFirstSecond) = cookie (pokeStart secondPoke)
   \<and> hasGap [firstPoke, laterPoke]
   \<and> isl (mergePokes sampleDeps [firstPoke, laterPoke] issuesSchema)"
proof -
  have ne: "[firstPoke, secondPoke] \<noteq> []" by simp
  have m: "mergePokes sampleDeps [firstPoke, secondPoke] issuesSchema = Inr (Some mergedFirstSecond)"
    by (simp add: mergePokes_def cookieGap_def mergePart_def assign_def
      keyOf_def toPrimaryKeyString_def ENTITIES_KEY_PREFIX_def toClientsKey_def
      CLIENTS_KEY_PREFIX_def toGotQueriesKey_def GOT_QUERIES_KEY_PREFIX_def sampleDeps_def
      issuesSchema_def firstPoke_def secondPoke_def mergedFirstSecond_def)
  have g: "hasGap [firstPoke, laterPoke]"
    by (simp add: firstPoke_def laterPoke_def less_option_def)
  have ne2: "[firstPoke, laterPoke] \<noteq> []" by simp
  note ok = mergePokes_throws_iff[OF ne, of sampleDeps issuesSchema]
  note bad = mergePokes_throws_iff[OF ne2, of sampleDeps issuesSchema]
  have notl: "\<not> isl (mergePokes sampleDeps [firstPoke, secondPoke] issuesSchema)"
    by (simp add: m)
  from ok notl have quiet: "\<not> hasGap [firstPoke, secondPoke]
      \<and> list_all (rowsTranslate sampleDeps issuesSchema) (allParts [firstPoke, secondPoke])"
    by blast
  from ok m have ends: "pokeBaseCookie mergedFirstSecond = baseCookie (pokeStart firstPoke)
      \<and> responseCookie (pullResponse mergedFirstSecond) = cookie (pokeStart secondPoke)"
    by simp
  from bad g have thrown: "isl (mergePokes sampleDeps [firstPoke, laterPoke] issuesSchema)"
    by blast
  from ne quiet m ends g thrown show ?thesis by blast
qed

subsection \<open>The merged poke against the pokes in order\<close>

text \<open>
  C1, as the spec has it, fails: \<open>mergePokes\<close> lets a poke through that starts from null
  again, or below the cookie of the poke before it, and the merged poke then applies
  where the second poke, applied on its own after the first, is refused for its base
  cookie.
\<close>

theorem merged_poke_differs_on_overlap:
  "applyMerged sampleDeps issuesSchema logOp freshClient [firstPoke, repeatedPoke] =
     Inr clientAfterFirst
   \<and> applyInOrder sampleDeps issuesSchema logOp freshClient [firstPoke, repeatedPoke] =
     Inl UnexpectedBaseCookie
   \<and> applyMerged sampleDeps issuesSchema logOp freshClient [firstPoke, overlappingPoke] =
     Inr clientAfterOverlap
   \<and> applyInOrder sampleDeps issuesSchema logOp freshClient [firstPoke, overlappingPoke] =
     Inl UnexpectedBaseCookie"
  by (simp add: applyMerged_def applyPoke_def mergePokes_def cookieGap_def mergePart_def
      assign_def applyOne_def applyPart_def
      keyOf_def toPrimaryKeyString_def ENTITIES_KEY_PREFIX_def toClientsKey_def
      CLIENTS_KEY_PREFIX_def toGotQueriesKey_def GOT_QUERIES_KEY_PREFIX_def sampleDeps_def
      issuesSchema_def firstPoke_def repeatedPoke_def overlappingPoke_def
      freshClient_def logOp_def clientAfterFirst_def clientAfterOverlap_def)

text \<open>
  C1, amended. Whenever the pokes of a non-empty buffer apply one after the other (each
  poke's \<open>baseCookie\<close> being the cookie the client holds when it is applied, every row
  operation having a key) and no part names a client \<open>__proto__\<close> in its
  \<open>lastMutationIDChanges\<close>, \<open>mergePokes\<close> returns a merged poke, and applying that poke
  gives the same client state, whatever a patch operation does to the store. And
  whenever \<open>mergePokes\<close> returns a poke, its \<open>lastMutationIDChanges\<close> holds for each client
  other than \<open>__proto__\<close> the last value that any part sets (the last binding in buffer
  order), and its patch is the concatenation of the parts' client, desired-query,
  got-query and row operations, in the order of the parts.
\<close>

theorem merged_poke_same_as_in_order:
  "(applyInOrder D schema step s buf = Inr s' \<and> buf \<noteq> []
      \<and> ''__proto__'' \<notin> fst ` set (allChanges (allParts buf)) \<longrightarrow>
      (\<exists>merged. mergePokes D buf schema = Inr (Some merged)
         \<and> applyPoke step s merged = Inr s'))
   \<and> (mergePokes D buf schema = Inr (Some merged) \<longrightarrow>
        (\<forall>c. c \<noteq> ''__proto__'' \<longrightarrow>
           mergedLastMutationIDChanges (pullResponse merged) c =
             map_of (rev (allChanges (allParts buf))) c)
        \<and> patch (pullResponse merged) = concat (map (partPatch D schema) (allParts buf)))"
proof (intro conjI impI allI)
  assume a: "applyInOrder D schema step s buf = Inr s' \<and> buf \<noteq> []
      \<and> ''__proto__'' \<notin> fst ` set (allChanges (allParts buf))"
  then have ne: "buf \<noteq> []" by simp
  from a applyInOrder_ok[of D schema step s buf s']
  have ch: "chained (clientCookie s) buf"
    and tr: "list_all (rowsTranslate D schema) (allParts buf)"
    and s': "s' = advanced D schema step s buf"
    by simp_all
  from a have keep: "filter (\<lambda>e. fst e \<noteq> ''__proto__'') (allChanges (allParts buf)) =
      allChanges (allParts buf)"
    by (force simp: filter_id_conv)
  from ch ne have base: "baseCookie (pokeStart (hd buf)) = clientCookie s"
    by (cases buf) simp_all
  note m = mergePokes_ok[OF ne chained_no_gap[OF ch] tr]
  have "applyPoke step s
      \<lparr>pokeBaseCookie = baseCookie (pokeStart (hd buf)),
       pullResponse =
         \<lparr>mergedLastMutationIDChanges =
            map_of (rev (filter (\<lambda>e. fst e \<noteq> ''__proto__'') (allChanges (allParts buf)))),
          patch = concat (map (partPatch D schema) (allParts buf)),
          responseCookie = cookie (pokeStart (last buf))\<rparr>\<rparr> = Inr s'"
    using ne base by (simp add: applyPoke_def advanced_def s' keep)
  with m show "\<exists>merged. mergePokes D buf schema = Inr (Some merged)
         \<and> applyPoke step s merged = Inr s'"
    by blast
next
  fix c :: string
  assume m: "mergePokes D buf schema = Inr (Some merged)" and c: "c \<noteq> ''__proto__''"
  from mergePokes_Some[OF m] mergePokes_ok[of buf D schema] m
  have "mergedLastMutationIDChanges (pullResponse merged) =
      map_of (rev (filter (\<lambda>e. fst e \<noteq> ''__proto__'') (allChanges (allParts buf))))"
    by simp
  moreover have "map_of (filter (\<lambda>e. fst e \<noteq> ''__proto__'') (rev (allChanges (allParts buf)))) c =
      map_of (rev (allChanges (allParts buf))) c"
    using c by (rule map_of_filter_key[where P = "\<lambda>k. k \<noteq> ''__proto__''"])
  ultimately show "mergedLastMutationIDChanges (pullResponse merged) c =
      map_of (rev (allChanges (allParts buf))) c"
    by (simp add: rev_filter)
next
  assume m: "mergePokes D buf schema = Inr (Some merged)"
  from mergePokes_Some[OF m] mergePokes_ok[of buf D schema] m
  show "patch (pullResponse merged) = concat (map (partPatch D schema) (allParts buf))"
    by simp
qed

theorem merged_poke_same_as_in_order_witness:
  "applyInOrder sampleDeps issuesSchema logOp freshClient [firstPoke, secondPoke] =
     Inr clientAfterSecond
   \<and> ''__proto__'' \<notin> fst ` set (allChanges (allParts [firstPoke, secondPoke]))
   \<and> mergePokes sampleDeps [firstPoke, secondPoke] issuesSchema = Inr (Some mergedFirstSecond)
   \<and> applyPoke logOp freshClient mergedFirstSecond = Inr clientAfterSecond
   \<and> mergedLastMutationIDChanges (pullResponse mergedFirstSecond) ''client'' = Some 2
   \<and> map_of (rev (allChanges (allParts [firstPoke, secondPoke]))) ''client'' = Some 2
   \<and> patch (pullResponse mergedFirstSecond) =
       concat (map (partPatch sampleDeps issuesSchema) (allParts [firstPoke, secondPoke]))"
proof -
  have a: "applyInOrder sampleDeps issuesSchema logOp freshClient [firstPoke, secondPoke] =
      Inr clientAfterSecond"
    by (simp add: applyOne_def applyPart_def
      keyOf_def toPrimaryKeyString_def ENTITIES_KEY_PREFIX_def toClientsKey_def
      CLIENTS_KEY_PREFIX_def toGotQueriesKey_def GOT_QUERIES_KEY_PREFIX_def sampleDeps_def
      issuesSchema_def firstPoke_def secondPoke_def
      freshClient_def logOp_def clientAfterSecond_def)
  have n: "''__proto__'' \<notin> fst ` set (allChanges (allParts [firstPoke, secondPoke]))"
    by (simp add: allChanges_def allParts_def firstPoke_def secondPoke_def)
  have m: "mergePokes sampleDeps [firstPoke, secondPoke] issuesSchema = Inr (Some mergedFirstSecond)"
    by (simp add: mergePokes_def cookieGap_def mergePart_def assign_def
      keyOf_def toPrimaryKeyString_def ENTITIES_KEY_PREFIX_def toClientsKey_def
      CLIENTS_KEY_PREFIX_def toGotQueriesKey_def GOT_QUERIES_KEY_PREFIX_def sampleDeps_def
      issuesSchema_def firstPoke_def secondPoke_def mergedFirstSecond_def)
  have l: "map_of (rev (allChanges (allParts [firstPoke, secondPoke]))) ''client'' = Some 2"
    by (simp add: allChanges_def allParts_def firstPoke_def secondPoke_def)
  have ne: "[firstPoke, secondPoke] \<noteq> []" by simp
  note inst = merged_poke_same_as_in_order[where D = sampleDeps and schema = issuesSchema
      and step = logOp and s = freshClient and buf = "[firstPoke, secondPoke]"
      and s' = clientAfterSecond and merged = mergedFirstSecond]
  from inst a ne n m have ap: "applyPoke logOp freshClient mergedFirstSecond = Inr clientAfterSecond"
    by auto
  from inst m l have lm: "mergedLastMutationIDChanges (pullResponse mergedFirstSecond) ''client'' = Some 2"
    by simp
  from inst m have pt: "patch (pullResponse mergedFirstSecond) =
       concat (map (partPatch sampleDeps issuesSchema) (allParts [firstPoke, secondPoke]))"
    by simp
  from a n m ap lm l pt show ?thesis by simp
qed

subsection \<open>Row identifiers\<close>

lemma parseAll_map:
  "\<forall>k \<in> set ks. parse_pk D (map_of val k) \<noteq> None \<Longrightarrow>
   parseAll D val ks = Some (map (\<lambda>k. the (parse_pk D (map_of val k))) ks)"
  by (induction ks) auto

text \<open>
  C9. For every table name, primary key and row whose key values pass validation: with a
  single key column the row identifier is \<open>e/\<close>, the table name, \<open>/\<close> and the string of
  the key value; otherwise it is \<open>e/\<close>, the table name, \<open>/\<close> and the hash of
  \<open>JSON.stringify\<close> of the list of key values in the order of the primary key.
\<close>

theorem toPrimaryKeyString_derivation:
  assumes "\<forall>k \<in> set pk. parse_pk D (map_of val k) \<noteq> None"
  shows "toPrimaryKeyString D tbl pk val =
     (if length pk = 1
      then Inr (''e/'' @ tbl @ ''/'' @ to_string D (the (parse_pk D (map_of val (hd pk)))))
      else Inr (''e/'' @ tbl @ ''/''
                @ h128 D (json_stringify D (map (\<lambda>k. the (parse_pk D (map_of val k))) pk))))"
proof (cases "length pk = 1")
  case True
  then obtain k where pk: "pk = [k]" by (cases pk) auto
  with assms show ?thesis
    by (auto simp: toPrimaryKeyString_def ENTITIES_KEY_PREFIX_def)
next
  case False
  with parseAll_map[OF assms] show ?thesis
    by (simp add: toPrimaryKeyString_def ENTITIES_KEY_PREFIX_def)
qed

theorem toPrimaryKeyString_derivation_witness:
  "parse_pk sampleDeps (map_of compoundKeyRow ''number'') = Some (JNum 42)
   \<and> parse_pk sampleDeps (map_of compoundKeyRow ''project'') = Some (JStr ''zero'')
   \<and> toPrimaryKeyString sampleDeps ''issues'' [''number''] compoundKeyRow = Inr ''e/issues/42''
   \<and> toPrimaryKeyString sampleDeps ''issues'' [''project'', ''number''] compoundKeyRow =
       Inr ''e/issues/#[zero,42]''"
proof -
  have n: "parse_pk sampleDeps (map_of compoundKeyRow ''number'') = Some (JNum 42)"
    by (simp add: sampleDeps_def compoundKeyRow_def)
  have p: "parse_pk sampleDeps (map_of compoundKeyRow ''project'') = Some (JStr ''zero'')"
    by (simp add: sampleDeps_def compoundKeyRow_def)
  have one: "\<forall>k \<in> set [''number'']. parse_pk sampleDeps (map_of compoundKeyRow k) \<noteq> None"
    using n by simp
  have two: "\<forall>k \<in> set [''project'', ''number''].
      parse_pk sampleDeps (map_of compoundKeyRow k) \<noteq> None"
    using n p by simp
  from toPrimaryKeyString_derivation[OF one, of "''issues''"]
    toPrimaryKeyString_derivation[OF two, of "''issues''"] n p
  show ?thesis
    by (simp add: sampleDeps_def compoundKeyRow_def bracketed_def marked_def numberToString_def
        digitChar_def)
qed

section \<open>Connection loop: the delay before a send\<close>

lemma jsSort_numeric: "sorted (jsSort ds) \<Longrightarrow> jsSort ds = sort ds"
  unfolding jsSort_def
  by (metis mset_sort properties_for_sort)

lemma median_numeric:
  assumes "sorted (jsSort ds)" "ds \<noteq> []"
  shows "median ds = Some (numericMedian ds)"
  using assms by (simp add: median_def numericMedian_def jsSort_numeric Let_def)

lemma last_in_prune:
  assumes "recs \<noteq> []"
  shows "prune recs \<noteq> [] \<and> last (prune recs) = last recs"
proof -
  from assms have "length recs - 9 < length recs"
    by (cases recs) simp_all
  then show ?thesis
    by (simp add: prune_def CONNECTION_MEMORY_COUNT_def)
qed

lemma successful_nonempty:
  assumes "recs \<noteq> []" "ok (last recs)"
  shows "successfulDurations (prune recs) \<noteq> []"
proof -
  from last_in_prune[OF assms(1)] assms(2)
  have "last (prune recs) \<in> set (prune recs)" "ok (last (prune recs))"
    by (metis last_in_set, metis)
  then show ?thesis
    by (auto simp: successfulDurations_def filter_empty_conv)
qed

lemma prune_short: "length recs \<le> 9 \<Longrightarrow> prune recs = recs"
  by (simp add: prune_def CONNECTION_MEMORY_COUNT_def)

text \<open>
  The median is taken after \<open>values.sort()\<close>, which orders numbers as strings: of 5, 10
  and 100 the loop's median is 100, and of 95, 100 and 105 it is 105.
\<close>

lemma median_sorts_as_strings:
  "median [5, 10, 100] = Some 100 \<and> numericMedian [5, 10, 100] = 10
   \<and> median [95, 100, 105] = Some 105 \<and> numericMedian [95, 100, 105] = 100"
  by (simp add: median_def numericMedian_def jsSort_def numberToString_def digitChar_def Let_def)

text \<open>
  C7, as the spec has it, fails. After a failed request the delay is not computed from
  the median: with a delay of 100 and a failure last, the next delay is 200, where the
  median of the successful durations, divided by two connections and clamped, is 250.
  Right after a recovery, with requests in flight, the delay is \<open>minDelayMs\<close>, 30. The
  durations come from the last nine records, not from the last nine successful sends:
  with five failures among them the loop's delay is 250 where the spec's is 150. And the
  quotient is truncated: one success of 105 ms gives 52, not 52.5.
\<close>

theorem delay_after_failure_is_not_median:
  "didLastSendRequestFail failedLast
   \<and> clampedDelay steadyDelegate (fst (nextDelay 0 100 steadyDelegate failedLast)) = 200
   \<and> specDelay steadyDelegate failedLast = 250
   \<and> clampedDelay steadyDelegate (fst (nextDelay 1 100 steadyDelegate recoveredLast)) = 30
   \<and> specDelay steadyDelegate recoveredLast = 250
   \<and> clampedDelay steadyDelegate (fst (nextDelay 1 0 steadyDelegate interruptedRecords)) = 250
   \<and> specDelay steadyDelegate interruptedRecords = 150
   \<and> clampedDelay steadyDelegate (fst (nextDelay 1 0 steadyDelegate oddRecord)) = 52
   \<and> specDelay steadyDelegate oddRecord = 105 / 2"
  by code_simp

text \<open>
  C7, amended. When the last request failed, the delay is \<open>minDelayMs\<close> if the previous
  delay was 0 and twice the previous delay otherwise. When the send overlaps requests in
  flight and the last request succeeded right after a failure, the delay is
  \<open>minDelayMs\<close>. When the send overlaps requests in flight, the last request succeeded,
  the one before it did not fail, and JavaScript's default sort (which compares the
  numbers as strings) leaves the durations in numeric order, the delay is the median of
  the successful durations among the last at most nine records, divided by
  \<open>maxConnections\<close> and truncated to a 32-bit integer, and 0 when \<open>maxConnections\<close> is 0.
  In every case the delay that is slept is clamped to \<open>[minDelayMs, maxDelayMs]\<close>, for
  a delegate whose \<open>minDelayMs\<close> is at most its \<open>maxDelayMs\<close>.
\<close>

theorem delay_of_next_send:
  "(didLastSendRequestFail recs \<longrightarrow>
      fst (nextDelay counter delay dg recs) = (if delay = 0 then minDelayMs dg else delay * 2))
   \<and> (0 < counter \<and> recovered recs \<longrightarrow> fst (nextDelay counter delay dg recs) = minDelayMs dg)
   \<and> (0 < counter \<and> recs \<noteq> [] \<and> ok (last recs) \<and> \<not> recovered recs
        \<and> sorted (jsSort (successfulDurations (prune recs))) \<longrightarrow>
      fst (nextDelay counter delay dg recs) =
        (if maxConnections dg = 0 then 0
         else toInt32 (numericMedian (successfulDurations (prune recs))
                       / of_int (maxConnections dg))))
   \<and> (minDelayMs dg \<le> maxDelayMs dg \<longrightarrow>
        minDelayMs dg \<le> clampedDelay dg (fst (nextDelay counter delay dg recs))
        \<and> clampedDelay dg (fst (nextDelay counter delay dg recs)) \<le> maxDelayMs dg)"
proof (intro conjI impI)
  assume "didLastSendRequestFail recs"
  then show "fst (nextDelay counter delay dg recs) = (if delay = 0 then minDelayMs dg else delay * 2)"
    by (simp add: nextDelay_def didLastSendRequestFail_def computeDelayAndUpdateDurations_def)
next
  assume "0 < counter \<and> recovered recs"
  then show "fst (nextDelay counter delay dg recs) = minDelayMs dg"
    by (auto simp: nextDelay_def recovered_def computeDelayAndUpdateDurations_def Let_def)
next
  assume a: "0 < counter \<and> recs \<noteq> [] \<and> ok (last recs) \<and> \<not> recovered recs
        \<and> sorted (jsSort (successfulDurations (prune recs)))"
  then have med: "median (successfulDurations (prune recs)) =
      Some (numericMedian (successfulDurations (prune recs)))"
    by (intro median_numeric successful_nonempty) simp_all
  show "fst (nextDelay counter delay dg recs) =
        (if maxConnections dg = 0 then 0
         else toInt32 (numericMedian (successfulDurations (prune recs))
                       / of_int (maxConnections dg)))"
  proof (cases "length recs > 1")
    case True
    with a have "ok (recs ! (length recs - 2))"
      by (auto simp: recovered_def)
    with a med True show ?thesis
      by (simp add: nextDelay_def computeDelayAndUpdateDurations_def Let_def
          quotientToInt32_def)
  next
    case False
    then have "prune recs = recs" by (simp add: prune_short)
    with a med False show ?thesis
      by (simp add: nextDelay_def computeDelayAndUpdateDurations_def quotientToInt32_def)
  qed
next
  assume "minDelayMs dg \<le> maxDelayMs dg"
  then show "minDelayMs dg \<le> clampedDelay dg (fst (nextDelay counter delay dg recs))"
    by (simp add: clampedDelay_def)
next
  assume "minDelayMs dg \<le> maxDelayMs dg"
  then show "clampedDelay dg (fst (nextDelay counter delay dg recs)) \<le> maxDelayMs dg"
    by (simp add: clampedDelay_def)
qed

theorem delay_of_next_send_witness:
  "didLastSendRequestFail failedLast
   \<and> fst (nextDelay 0 100 steadyDelegate failedLast) = 200
   \<and> recovered recoveredLast
   \<and> fst (nextDelay 1 100 steadyDelegate recoveredLast) = 30
   \<and> ok (last steadyRecords) \<and> \<not> recovered steadyRecords
   \<and> sorted (jsSort (successfulDurations (prune steadyRecords)))
   \<and> fst (nextDelay 1 7 steadyDelegate steadyRecords) = 100
   \<and> minDelayMs steadyDelegate \<le> maxDelayMs steadyDelegate
   \<and> clampedDelay steadyDelegate (fst (nextDelay 1 7 steadyDelegate steadyRecords)) = 100"
proof -
  have f: "didLastSendRequestFail failedLast"
    by (simp add: didLastSendRequestFail_def failedLast_def)
  have r: "recovered recoveredLast"
    by (simp add: recovered_def recoveredLast_def)
  have st: "0 < (1::nat) \<and> steadyRecords \<noteq> [] \<and> ok (last steadyRecords)
      \<and> \<not> recovered steadyRecords
      \<and> sorted (jsSort (successfulDurations (prune steadyRecords)))"
    by (simp add: steadyRecords_def steadyDelegate_def recovered_def prune_def
        CONNECTION_MEMORY_COUNT_def successfulDurations_def jsSort_def numberToString_def
        digitChar_def)
  have mm: "minDelayMs steadyDelegate \<le> maxDelayMs steadyDelegate"
    by (simp add: steadyDelegate_def)
  have mc: "maxConnections steadyDelegate \<noteq> 0"
    by (simp add: steadyDelegate_def)
  have val: "toInt32 (numericMedian (successfulDurations (prune steadyRecords))
      / of_int (maxConnections steadyDelegate)) = 100"
    by (simp add: steadyRecords_def steadyDelegate_def prune_def CONNECTION_MEMORY_COUNT_def
        successfulDurations_def numericMedian_def toInt32_def truncateToZero_def Let_def)
  from delay_of_next_send[where recs = failedLast and counter = 0 and delay = 100
      and dg = steadyDelegate] f
  have a: "fst (nextDelay 0 100 steadyDelegate failedLast) = 200" by simp
  from delay_of_next_send[where recs = recoveredLast and counter = 1 and delay = 100
      and dg = steadyDelegate] r
  have b: "fst (nextDelay 1 100 steadyDelegate recoveredLast) = 30"
    by (simp add: steadyDelegate_def)
  from delay_of_next_send[where recs = steadyRecords and counter = 1 and delay = 7
      and dg = steadyDelegate] st val mc
  have c: "fst (nextDelay 1 7 steadyDelegate steadyRecords) = 100" by simp
  from delay_of_next_send[where recs = steadyRecords and counter = 1 and delay = 7
      and dg = steadyDelegate] mm
  have d: "minDelayMs steadyDelegate \<le> clampedDelay steadyDelegate
              (fst (nextDelay 1 7 steadyDelegate steadyRecords))"
    by blast
  have e: "clampedDelay steadyDelegate (fst (nextDelay 1 7 steadyDelegate steadyRecords)) = 100"
    using c by (simp add: clampedDelay_def steadyDelegate_def)
  from f a r b st c mm e show ?thesis by simp
qed

section \<open>Connection loop: closing\<close>

lemma waiting_update_returned:
  assumes "k < length cs" "\<not> isReturned (cs ! k)"
  shows "length (filter (\<lambda>c. \<not> isReturned c) (cs[k := Returned r])) + 1 =
         length (filter (\<lambda>c. \<not> isReturned c) cs)"
  using assms
proof (induction cs arbitrary: k)
  case Nil
  then show ?case by simp
next
  case (Cons c cs)
  then show ?case by (cases k) auto
qed

lemma waiting_update_await:
  assumes "k < length cs" "\<not> isReturned (cs ! k)"
  shows "length (filter (\<lambda>c. \<not> isReturned c) (cs[k := AwaitSendResolver i])) =
         length (filter (\<lambda>c. \<not> isReturned c) cs)"
  using assms
proof (induction cs arbitrary: k)
  case Nil
  then show ?case by simp
next
  case (Cons c cs)
  then show ?case by (cases k) auto
qed

lemma inv_init: "loopInvariant initialLoop"
  by (simp add: loopInvariant_def initialLoop_def waiting_def)

lemma inv_send: "loopInvariant l \<Longrightarrow> loopInvariant (send now l)"
  by (auto simp: loopInvariant_def send_def waiting_def Let_def)

lemma inv_visible: "loopInvariant l \<Longrightarrow> loopInvariant (visible k l)"
  by (auto simp: loopInvariant_def visible_def waiting_def waiting_update_await)

lemma inv_resume: "loopInvariant l \<Longrightarrow> loopInvariant (resume k l)"
proof -
  assume inv: "loopInvariant l"
  show ?thesis
  proof (cases "k < length (calls l)")
    case False
    with inv show ?thesis by (simp add: resume_def)
  next
    case k: True
    show ?thesis
    proof (cases "calls l ! k")
      case AwaitVisible
      with inv k show ?thesis by (simp add: resume_def)
    next
      case (Returned r)
      with inv k show ?thesis by (simp add: resume_def)
    next
      case (AwaitSendResolver i)
      show ?thesis
      proof (cases "i < length (resolvers l) \<and> resolvers l ! i \<noteq> None")
        case False
        with inv k AwaitSendResolver show ?thesis by (auto simp: resume_def)
      next
        case True
        then obtain r where r: "resolvers l ! i = Some r" by auto
        have "\<not> isReturned (calls l ! k)" by (simp add: AwaitSendResolver)
        from waiting_update_returned[OF k this, of r]
        have w: "int (waiting l) - 1 =
            int (length (filter (\<lambda>c. \<not> isReturned c) ((calls l)[k := Returned r])))"
          by (simp add: waiting_def)
        have pos: "0 < waiting l"
          using waiting_update_returned[OF k \<open>\<not> isReturned (calls l ! k)\<close>, of r]
          unfolding waiting_def by linarith
        from inv k AwaitSendResolver True r w pos show ?thesis
          by (auto simp: resume_def loopInvariant_def waiting_def)
      qed
    qed
  qed
qed

lemma inv_close: "loopInvariant l \<Longrightarrow> loopInvariant (close l)"
  by (auto simp: loopInvariant_def close_def resolve_def waiting_def Let_def split: if_splits)

lemma inv_requestDone: "loopInvariant l \<Longrightarrow> loopInvariant (requestDone e l)"
  by (auto simp: loopInvariant_def requestDone_def resolve_def waiting_def Let_def nth_append)

lemma inv_step: "loopInvariant l \<Longrightarrow> loopInvariant (loopStep l ev)"
  by (cases ev) (simp_all add: inv_send inv_visible inv_resume inv_close inv_requestDone)

lemma inv_run: "loopInvariant (runEvents evs)"
  unfolding runEvents_def
  by (induction evs rule: rev_induct) (simp_all add: inv_init inv_step)

lemma waiting_pos:
  assumes "k < length (calls l)" "calls l ! k = AwaitSendResolver i"
  shows "0 < waiting l"
proof -
  have "calls l ! k \<in> set (calls l)"
    using assms(1) by (rule nth_mem)
  then have "calls l ! k \<in> set (filter (\<lambda>c. \<not> isReturned c) (calls l))"
    using assms(2) by simp
  then show ?thesis
    unfolding waiting_def by (rule length_pos_if_in_set)
qed

text \<open>
  C8, as the spec has it, fails: the promise of a pending \<open>send\<close> is not rejected when the
  loop is closed. It is fulfilled, with an object that holds \<open>new Error('Closed')\<close>.
\<close>

theorem pending_send_is_not_rejected:
  "promiseOf (calls (runEvents closedThenResumed) ! 0) = Fulfilled (Some (Error ''Closed''))
   \<and> \<not> is_Rejected (promiseOf (calls (runEvents closedThenResumed) ! 0))"
  by (simp add: closedThenResumed_def runEvents_def initialLoop_def send_def close_def
      resolve_def resume_def closeError_def Let_def)

text \<open>
  C8, amended. In every state the loop can reach after \<open>close()\<close>, a call of \<open>send\<close> that
  waits for the current send resolver comes back with \<open>{error: Error('Closed')}\<close>, its
  promise fulfilled with that value, and every later call of \<open>send\<close> returns the same
  value at once.
\<close>

theorem send_after_close:
  assumes "closed (runEvents evs)"
  shows "promiseOf (last (calls (send now (runEvents evs)))) = Fulfilled (Some (Error ''Closed''))
       \<and> (\<forall>k < length (calls (runEvents evs)).
            calls (runEvents evs) ! k = AwaitSendResolver (sendResolver (runEvents evs)) \<longrightarrow>
            promiseOf (calls (resume k (runEvents evs)) ! k) = Fulfilled (Some (Error ''Closed'')))"
proof (intro conjI allI impI)
  show "promiseOf (last (calls (send now (runEvents evs)))) = Fulfilled (Some (Error ''Closed''))"
    using assms by (simp add: send_def closeError_def)
next
  fix k
  assume k: "k < length (calls (runEvents evs))"
    and aw: "calls (runEvents evs) ! k = AwaitSendResolver (sendResolver (runEvents evs))"
  note inv = inv_run[of evs]
  from waiting_pos[OF k aw] inv assms
  have "resolvers (runEvents evs) ! sendResolver (runEvents evs) = Some (Some closeError)"
    by (auto simp: loopInvariant_def)
  with k aw inv show "promiseOf (calls (resume k (runEvents evs)) ! k) =
      Fulfilled (Some (Error ''Closed''))"
    by (simp add: resume_def loopInvariant_def closeError_def)
qed

theorem send_after_close_witness:
  "closed (runEvents closedWithWaiter)
   \<and> calls (runEvents closedWithWaiter) ! 0 =
       AwaitSendResolver (sendResolver (runEvents closedWithWaiter))
   \<and> promiseOf (calls (resume 0 (runEvents closedWithWaiter)) ! 0) =
       Fulfilled (Some (Error ''Closed''))
   \<and> promiseOf (last (calls (send True (runEvents closedWithWaiter)))) =
       Fulfilled (Some (Error ''Closed''))"
proof -
  have c: "closed (runEvents closedWithWaiter)"
    by (simp add: closedWithWaiter_def runEvents_def initialLoop_def send_def close_def
        resolve_def Let_def)
  have w: "calls (runEvents closedWithWaiter) ! 0 =
      AwaitSendResolver (sendResolver (runEvents closedWithWaiter))"
    by (simp add: closedWithWaiter_def runEvents_def initialLoop_def send_def close_def
        resolve_def Let_def)
  have k: "0 < length (calls (runEvents closedWithWaiter))"
    by (simp add: closedWithWaiter_def runEvents_def initialLoop_def send_def close_def
        resolve_def Let_def)
  from send_after_close[OF c, where now = True] w k c show ?thesis by blast
qed

section \<open>Connecting to a room: accepted and rejected requests\<close>

text \<open>
  C6. A parsed connect request is rejected, with an error frame sent on the socket and
  the socket closed, and nothing registered, when its \<open>lmid\<close> is greater than the stored
  last mutation id of the client (0 without a record) or \<open>compareVersions\<close> puts its
  \<open>baseCookie\<close> above the stored version. Otherwise the socket that was registered for
  the client id is closed (and no other), the new socket is registered under the client
  id, and a \<open>connected\<close> frame is sent on it.
\<close>

theorem handleConnection_decision:
  "(lmid req > (case clientRecords room (clientID req) of None \<Rightarrow> 0 | Some r \<Rightarrow> lastMutationID r)
      \<or> cmp (requestBaseCookie req) (storedVersion room) > 0 \<longrightarrow>
      (\<exists>msg. sentFrames (handleConnection cmp ws (Inr req) room) ws =
              sentFrames room ws @ [ErrorFrame msg])
      \<and> ws \<in> closedSockets (handleConnection cmp ws (Inr req) room)
      \<and> clients (handleConnection cmp ws (Inr req) room) = clients room
      \<and> listeners (handleConnection cmp ws (Inr req) room) = listeners room)
   \<and> (\<not> (lmid req > (case clientRecords room (clientID req) of None \<Rightarrow> 0 | Some r \<Rightarrow> lastMutationID r)
         \<or> cmp (requestBaseCookie req) (storedVersion room) > 0) \<longrightarrow>
      sentFrames (handleConnection cmp ws (Inr req) room) ws =
        sentFrames room ws @ [ConnectedFrame]
      \<and> (\<exists>c. clients (handleConnection cmp ws (Inr req) room) (clientID req) = Some c
              \<and> socket c = ws)
      \<and> closedSockets (handleConnection cmp ws (Inr req) room) =
          closedSockets room \<union>
            (case clients room (clientID req) of None \<Rightarrow> {} | Some old \<Rightarrow> {socket old}))"
  by (auto simp: handleConnection_def sendError_def wsSend_def wsClose_def Let_def
      split: option.splits)

theorem handleConnection_decision_witness:
  "lmid aheadRequest > 5
   \<and> 2 \<in> closedSockets (handleConnection nullFirst 2 (Inr aheadRequest) roomWithClient)
   \<and> clients (handleConnection nullFirst 2 (Inr aheadRequest) roomWithClient) =
       clients roomWithClient
   \<and> lmid reconnectRequest \<le> 5
   \<and> nullFirst (requestBaseCookie reconnectRequest) (storedVersion roomWithClient) \<le> 0
   \<and> sentFrames (handleConnection nullFirst 2 (Inr reconnectRequest) roomWithClient) 2 =
       [ConnectedFrame]
   \<and> closedSockets (handleConnection nullFirst 2 (Inr reconnectRequest) roomWithClient) = {1}"
proof -
  have rec: "clientRecords roomWithClient ''c1'' =
      Some \<lparr>recordBaseCookie = Some 7, lastMutationID = 5\<rparr>"
    by (simp add: roomWithClient_def)
  have old: "clients roomWithClient ''c1'' =
      Some \<lparr>socket = 1, clientUserData = ''u1'', clockBehindByMs = None, pending = []\<rparr>"
    by (simp add: roomWithClient_def)
  have ahead: "lmid aheadRequest > 5" "clientID aheadRequest = ''c1''"
    by (simp_all add: aheadRequest_def)
  have fine: "lmid reconnectRequest \<le> 5" "clientID reconnectRequest = ''c1''"
      "nullFirst (requestBaseCookie reconnectRequest) (storedVersion roomWithClient) \<le> 0"
    by (simp_all add: reconnectRequest_def roomWithClient_def nullFirst_def)
  have sent: "sentFrames roomWithClient 2 = []" "closedSockets roomWithClient = {}"
    by (simp_all add: roomWithClient_def)
  from handleConnection_decision[where req = aheadRequest and room = roomWithClient
      and cmp = nullFirst and ws = 2] rec ahead
  have a: "2 \<in> closedSockets (handleConnection nullFirst 2 (Inr aheadRequest) roomWithClient)
      \<and> clients (handleConnection nullFirst 2 (Inr aheadRequest) roomWithClient) =
          clients roomWithClient"
    by simp
  from handleConnection_decision[where req = reconnectRequest and room = roomWithClient
      and cmp = nullFirst and ws = 2] rec old fine sent
  have b: "sentFrames (handleConnection nullFirst 2 (Inr reconnectRequest) roomWithClient) 2 =
        [ConnectedFrame]
      \<and> closedSockets (handleConnection nullFirst 2 (Inr reconnectRequest) roomWithClient) = {1}"
    by simp
  from a b ahead fine show ?thesis by simp
qed

section \<open>Client view records: rows, idempotence and versions\<close>

subsection \<open>The tests of \<open>received\<close>, run on the model\<close>

text \<open>
  \<open>desired to got\<close>: the three calls return the patches that the test expects
  (part_008:1347-1439), and the three rows end as the test finds them in the store
  (part_008:1636-1670).
\<close>

lemma received_desired_to_got:
  "snd (received desiredToGot shouldShowUp) =
     [putPatch (issueRow ''123'') [(''id'', JStr ''should-show-up-in-patch'')] (cvrVersion ''1a0'' 0)]
   \<and> snd (received (fst (received desiredToGot shouldShowUp)) sameAndNew) =
     [putPatch (issueRow ''321'') [(''id'', JStr ''same column selection as twoHash'')]
        (cvrVersion ''1a0'' 0),
      putPatch (issueRow ''888'') [(''id'', JStr ''new version patch'')] (cvrVersion ''1aa'' 1)]
   \<and> snd (received (fst (received (fst (received desiredToGot shouldShowUp)) sameAndNew))
          shouldShowUp) =
     [putPatch (issueRow ''123'') [(''id'', JStr ''should-show-up-in-patch'')] (cvrVersion ''1a0'' 0)]
   \<and> map (rowRecords (fst (received (fst (received (fst (received desiredToGot shouldShowUp))
          sameAndNew)) shouldShowUp))) [issueRow ''123'', issueRow ''321'', issueRow ''888''] =
     [Some (rowRecord ''03'' (cvrVersion ''1a0'' 0) (Some [(''twoHash'', 1), (''oneHash'', 2)])),
      Some (rowRecord ''03'' (cvrVersion ''1a0'' 0) (Some [(''twoHash'', 1), (''oneHash'', 1)])),
      Some (rowRecord ''09'' (cvrVersion ''1aa'' 1) (Some [(''oneHash'', 1)]))]"
  by (simp add: desiredToGot_def shouldShowUp_def sameAndNew_def tracking_def receivedRow_def
      existingOf_def mergedCounts_def effectivePatchVersion_def
      existingRecord_def baseCounts_def countsOfRecord_def liveRecord_def live_def
      issueRow_def cvrVersion_def rowRecord_def rowUpdate_def putPatch_def Let_def)

text \<open>
  \<open>new transformation hash\<close>: the row already held by both queries keeps its counts and
  its \<open>patchVersion\<close>, the row with a new version moves to \<open>newVersion\<close>
  (part_008:1800-1856, 2046-2087).
\<close>

lemma received_new_transformation_hash:
  "snd (received (tracking (cvrVersion ''1ba'' 1) [''oneHash''] gotRows) (existingPatch ''oneHash'')) =
     [putPatch (issueRow ''123'') [(''id'', JStr ''existing-patch'')] (cvrVersion ''1aa'' 1)]
   \<and> snd (received (fst (received (tracking (cvrVersion ''1ba'' 1) [''oneHash''] gotRows)
          (existingPatch ''oneHash''))) (movedReference ''oneHash'')) =
     [putPatch (issueRow ''321'') [] (cvrVersion ''1ba'' 1)]
   \<and> map (rowRecords (fst (received (fst (received
          (tracking (cvrVersion ''1ba'' 1) [''oneHash''] gotRows)
          (existingPatch ''oneHash''))) (movedReference ''oneHash''))))
        [issueRow ''123'', issueRow ''321''] =
     [Some (rowRecord ''03'' (cvrVersion ''1aa'' 1) (Some [(''twoHash'', 1), (''oneHash'', 1)])),
      Some (rowRecord ''09'' (cvrVersion ''1ba'' 1) (Some [(''twoHash'', 1), (''oneHash'', 1)]))]"
  by (simp add: gotRows_def existingPatch_def movedReference_def tracking_def receivedRow_def
      existingOf_def mergedCounts_def effectivePatchVersion_def
      existingRecord_def baseCounts_def countsOfRecord_def liveRecord_def live_def
      issueRow_def cvrVersion_def rowRecord_def rowUpdate_def putPatch_def Let_def)

text \<open>
  \<open>multiple executed queries\<close>: the row reported by both executed queries is put twice at
  its stored \<open>patchVersion\<close> and ends with one reference from each (part_008:2329-2377,
  2668-2678).
\<close>

lemma received_multiple_executed_queries:
  "snd (received (tracking (cvrVersion ''1ba'' 1) [''oneHash'', ''twoHash''] gotRows)
          (existingPatch ''oneHash'')) =
     [putPatch (issueRow ''123'') [(''id'', JStr ''existing-patch'')] (cvrVersion ''1aa'' 1)]
   \<and> snd (received (fst (received (tracking (cvrVersion ''1ba'' 1) [''oneHash'', ''twoHash''] gotRows)
          (existingPatch ''oneHash''))) (existingPatch ''twoHash'')) =
     [putPatch (issueRow ''123'') [(''id'', JStr ''existing-patch'')] (cvrVersion ''1aa'' 1)]
   \<and> rowRecords (fst (received (fst (received
          (tracking (cvrVersion ''1ba'' 1) [''oneHash'', ''twoHash''] gotRows)
          (existingPatch ''oneHash''))) (existingPatch ''twoHash''))) (issueRow ''123'') =
     Some (rowRecord ''03'' (cvrVersion ''1aa'' 1) (Some [(''oneHash'', 1), (''twoHash'', 1)]))"
  by (simp add: gotRows_def existingPatch_def tracking_def receivedRow_def
      existingOf_def mergedCounts_def effectivePatchVersion_def
      existingRecord_def baseCounts_def countsOfRecord_def liveRecord_def live_def
      issueRow_def cvrVersion_def rowRecord_def rowUpdate_def putPatch_def Let_def)

text \<open>
  \<open>row key changed\<close>: the row received under its new key is put at the \<open>patchVersion\<close> of
  the record under its prior key and replaces that record; the row that is new to the
  CVR is put at \<open>newVersion\<close> (part_008:3569-3621, 3690-3718).
\<close>

lemma received_row_key_changed:
  "snd (received rowKeyChanged replacesRow) =
     [putPatch (rekeyedRow ''1foo'')
        [(''id'', JStr ''123''), (''newID'', JStr ''1foo''), (''value'', JStr ''foobar'')]
        (cvrVersion ''1aa'' 1)]
   \<and> snd (received (fst (received rowKeyChanged replacesRow)) newToCVR) =
     [putPatch (rekeyedRow ''3baz'')
        [(''id'', JStr ''888''), (''newID'', JStr ''3baz''), (''value'', JStr ''barfoo'')]
        (cvrVersion ''1bb'' 0)]
   \<and> map (rowRecords (fst (received (fst (received rowKeyChanged replacesRow)) newToCVR)))
        [rekeyedRow ''1foo'', issueRow ''123'', rekeyedRow ''3baz''] =
     [Some (rowRecord ''03'' (cvrVersion ''1aa'' 1) (Some [(''oneHash'', 1)])),
      None,
      Some (rowRecord ''09'' (cvrVersion ''1bb'' 0) (Some [(''oneHash'', 1)]))]"
  by (simp add: rowKeyChanged_def replacesRow_def newToCVR_def tracking_def receivedRow_def
      existingOf_def mergedCounts_def effectivePatchVersion_def
      existingRecord_def keyWithin_def baseCounts_def countsOfRecord_def liveRecord_def live_def
      issueRow_def rekeyedRow_def cvrVersion_def rowRecord_def rowUpdate_def putPatch_def Let_def)

text \<open>
  \<open>advance with delete that cancels out add\<close>: with counts of 0 the stored row is put at
  \<open>newVersion\<close> for its new version and keeps its count, and the row that was never
  referenced leaves neither a patch nor a record (part_008:3795-3827, 3892-3911).
\<close>

lemma received_cancels_out:
  "snd (received cancelsOut [unchangedCount, neverReferenced]) =
     [putPatch (issueRow ''123'') [(''id'', JStr ''should-show-up-in-patch'')] (cvrVersion ''1ba'' 0)]
   \<and> map (rowRecords (fst (received cancelsOut [unchangedCount, neverReferenced])))
        [issueRow ''123'', issueRow ''321'', issueRow ''888''] =
     [Some (rowRecord ''04'' (cvrVersion ''1ba'' 0) (Some [(''oneHash'', 1)])),
      Some (rowRecord ''03'' (cvrVersion ''1a0'' 0) (Some [(''oneHash'', 1)])),
      None]"
  by (simp add: cancelsOut_def unchangedCount_def neverReferenced_def tracking_def receivedRow_def
      existingOf_def mergedCounts_def effectivePatchVersion_def
      existingRecord_def keyWithin_def baseCounts_def countsOfRecord_def liveRecord_def live_def
      issueRow_def cvrVersion_def rowRecord_def rowUpdate_def putPatch_def Let_def)

subsection \<open>The \<open>patchVersion\<close> of a received row\<close>

lemma receivedRow_keeps:
  "existingRows (fst (receivedRow s e)) = existingRows s
   \<and> updatedVersion (fst (receivedRow s e)) = updatedVersion s
   \<and> removedOrExecutedQueryIDs (fst (receivedRow s e)) = removedOrExecutedQueryIDs s"
  by (simp add: receivedRow_def Let_def)

lemma received_keeps:
  "existingRows (fst (received s es)) = existingRows s
   \<and> updatedVersion (fst (received s es)) = updatedVersion s
   \<and> removedOrExecutedQueryIDs (fst (received s es)) = removedOrExecutedQueryIDs s"
proof (induction es arbitrary: s)
  case Nil
  then show ?case by simp
next
  case (Cons e es)
  from Cons.IH[of "fst (receivedRow s e)"] receivedRow_keeps[of s e]
  show ?case by (simp add: split_def Let_def)
qed

lemma received_snoc:
  "received s (es @ [e]) =
     (fst (receivedRow (fst (received s es)) e),
      snd (received s es) @ snd (receivedRow (fst (received s es)) e))"
  by (induction es arbitrary: s) (simp_all add: split_def Let_def)

text \<open>
  C2. For every row processed by \<open>received\<close>, after any rows processed before it: when
  the row has an existing record, the record written for it carries \<open>newVersion\<close> as its
  \<open>patchVersion\<close> if the received row version is greater than the stored one or the row
  crosses between dead and live, and the prior \<open>patchVersion\<close> otherwise; a row that
  has no record gets \<open>newVersion\<close> when it is live after the update and no record when
  it is not. Every patch emitted for the row is a put of the received contents tagged with the
  \<open>patchVersion\<close> of the row's record. The instance further down is a row already
  present at its version, whose put is tagged with a \<open>patchVersion\<close> older than
  \<open>newVersion\<close>.
\<close>

theorem received_patchVersion:
  assumes "received s pre = (s1, ps1)" and "receivedRow s1 (ident, u) = (s2, ps)"
  shows "received s (pre @ [(ident, u)]) = (s2, ps1 @ ps)
       \<and> (case existingRecord (existingRows s) ident (contents u) of
            Some old \<Rightarrow>
              (\<exists>r'. rowRecords s2 ident = Some r'
                 \<and> patchVersion r' =
                     (if rowVersion (snd old) < receivedVersion u
                         \<or> liveRecord (snd old) \<noteq> liveRecord r'
                      then updatedVersion s
                      else patchVersion (snd old)))
          | None \<Rightarrow>
              (case rowRecords s2 ident of
                 None \<Rightarrow> ps = []
               | Some r' \<Rightarrow> liveRecord r' \<and> patchVersion r' = updatedVersion s))
       \<and> (\<forall>p \<in> set ps.
             \<exists>r'. rowRecords s2 ident = Some r'
               \<and> p = \<lparr>rowPatch = PutRow ident (contents u), toVersion = patchVersion r'\<rparr>)"
proof -
  from assms(1) received_keeps[of s pre]
  have same: "existingRows s1 = existingRows s" "updatedVersion s1 = updatedVersion s"
    by simp_all
  have whole: "received s (pre @ [(ident, u)]) = (s2, ps1 @ ps)"
    using assms by (simp add: received_snoc)
  have ex: "existingOf s1 (ident, u) = existingRecord (existingRows s) ident (contents u)"
    by (simp add: existingOf_def same)
  define merged where "merged = mergedCounts s1 (ident, u)"
  define written where "written = \<lparr>rowVersion = receivedVersion u,
      patchVersion = effectivePatchVersion s1 (ident, u), refCounts = Some merged\<rparr>"
  have lw: "liveRecord written = live merged"
    by (simp add: written_def liveRecord_def countsOfRecord_def)
  show ?thesis
  proof (cases "existingRecord (existingRows s) ident (contents u)")
    case None
    have pv: "effectivePatchVersion s1 (ident, u) = updatedVersion s"
      by (simp add: effectivePatchVersion_def ex None same)
    show ?thesis
    proof (cases "live merged")
      case True
      from assms(2) None True have s2: "rowRecords s2 ident = Some written"
        and ps: "ps = [\<lparr>rowPatch = PutRow ident (contents u), toVersion = patchVersion written\<rparr>]"
        by (auto simp: receivedRow_def ex Let_def merged_def written_def)
      from True lw pv have "liveRecord written \<and> patchVersion written = updatedVersion s"
        by (simp add: written_def)
      with whole None s2 ps show ?thesis by simp
    next
      case False
      from assms(2) None False have "rowRecords s2 ident = None" and "ps = []"
        by (auto simp: receivedRow_def ex Let_def merged_def)
      with whole None show ?thesis by simp
    qed
  next
    case (Some old)
    from assms(2) Some have s2: "rowRecords s2 ident = Some written"
      and ps: "ps = (if live merged
                     then [\<lparr>rowPatch = PutRow ident (contents u), toVersion = patchVersion written\<rparr>]
                     else [])"
      by (auto simp: receivedRow_def ex Let_def merged_def written_def)
    have pv: "patchVersion written =
        (if rowVersion (snd old) < receivedVersion u \<or> liveRecord (snd old) \<noteq> liveRecord written
         then updatedVersion s else patchVersion (snd old))"
      by (simp add: lw) (simp add: written_def effectivePatchVersion_def ex Some same merged_def)
    from whole Some s2 ps pv show ?thesis by simp
  qed
qed

theorem received_patchVersion_witness:
  "received desiredToGot [] = (desiredToGot, [])
   \<and> snd (receivedRow desiredToGot (hd shouldShowUp)) =
       [putPatch (issueRow ''123'') [(''id'', JStr ''should-show-up-in-patch'')]
          (cvrVersion ''1a0'' 0)]
   \<and> existingRecord (existingRows desiredToGot) (issueRow ''123'')
        [(''id'', JStr ''should-show-up-in-patch'')] =
       Some (issueRow ''123'', rowRecord ''03'' (cvrVersion ''1a0'' 0) (Some [(''twoHash'', 1)]))
   \<and> rowRecords (fst (receivedRow desiredToGot (hd shouldShowUp))) (issueRow ''123'') =
       Some (rowRecord ''03'' (cvrVersion ''1a0'' 0) (Some [(''twoHash'', 1), (''oneHash'', 1)]))
   \<and> updatedVersion desiredToGot = cvrVersion ''1aa'' 1
   \<and> versionLess (cvrVersion ''1a0'' 0) (cvrVersion ''1aa'' 1)
   \<and> received desiredToGot shouldShowUp =
       (fst (receivedRow desiredToGot (hd shouldShowUp)),
        [putPatch (issueRow ''123'') [(''id'', JStr ''should-show-up-in-patch'')]
          (cvrVersion ''1a0'' 0)])"
proof -
  define u where "u = rowUpdate ''03'' [(''oneHash'', 1)] [(''id'', JStr ''should-show-up-in-patch'')]"
  have e: "hd shouldShowUp = (issueRow ''123'', u)"
    by (simp add: shouldShowUp_def u_def)
  have a: "received desiredToGot [] = (desiredToGot, [])" by simp
  have ps: "snd (receivedRow desiredToGot (issueRow ''123'', u)) =
       [putPatch (issueRow ''123'') [(''id'', JStr ''should-show-up-in-patch'')]
          (cvrVersion ''1a0'' 0)]"
    by (simp add: u_def desiredToGot_def tracking_def receivedRow_def
      existingOf_def mergedCounts_def effectivePatchVersion_def
      existingRecord_def baseCounts_def countsOfRecord_def liveRecord_def live_def
      issueRow_def cvrVersion_def rowRecord_def rowUpdate_def putPatch_def Let_def)
  have ex: "existingRecord (existingRows desiredToGot) (issueRow ''123'')
        [(''id'', JStr ''should-show-up-in-patch'')] =
       Some (issueRow ''123'', rowRecord ''03'' (cvrVersion ''1a0'' 0) (Some [(''twoHash'', 1)]))"
    by (simp add: desiredToGot_def tracking_def existingRecord_def issueRow_def)
  have rec: "rowRecords (fst (receivedRow desiredToGot (issueRow ''123'', u))) (issueRow ''123'') =
       Some (rowRecord ''03'' (cvrVersion ''1a0'' 0) (Some [(''twoHash'', 1), (''oneHash'', 1)]))"
    by (simp add: u_def desiredToGot_def tracking_def receivedRow_def
      existingOf_def mergedCounts_def effectivePatchVersion_def
      existingRecord_def baseCounts_def countsOfRecord_def liveRecord_def live_def
      issueRow_def cvrVersion_def rowRecord_def rowUpdate_def putPatch_def Let_def)
  have nv: "updatedVersion desiredToGot = cvrVersion ''1aa'' 1"
    by (simp add: desiredToGot_def tracking_def)
  have older: "versionLess (cvrVersion ''1a0'' 0) (cvrVersion ''1aa'' 1)"
    by (simp add: versionLess_def cvrVersion_def)
  have b: "receivedRow desiredToGot (issueRow ''123'', u) =
      (fst (receivedRow desiredToGot (issueRow ''123'', u)),
       snd (receivedRow desiredToGot (issueRow ''123'', u)))"
    by simp
  from received_patchVersion[OF a b]
  have "received desiredToGot ([] @ [(issueRow ''123'', u)]) =
      (fst (receivedRow desiredToGot (issueRow ''123'', u)),
       [] @ snd (receivedRow desiredToGot (issueRow ''123'', u)))"
    by (rule conjunct1)
  then have whole: "received desiredToGot shouldShowUp =
       (fst (receivedRow desiredToGot (hd shouldShowUp)),
        [putPatch (issueRow ''123'') [(''id'', JStr ''should-show-up-in-patch'')]
          (cvrVersion ''1a0'' 0)])"
    unfolding e ps by (simp add: shouldShowUp_def u_def)
  from a ps ex rec nv older whole show ?thesis
    unfolding e by (intro conjI)
qed

subsection \<open>A row received twice\<close>

lemma live_addCount_zero: "live (addCount q 0 cs) = live cs"
  by (induction cs) (auto simp: live_def split: if_splits)

lemma keys_addCount: "fst ` set (addCount q d cs) = insert q (fst ` set cs)"
proof (induction cs)
  case Nil
  then show ?case by simp
next
  case (Cons c cs)
  obtain a b where c: "c = (a, b)" by (cases c)
  show ?case
  proof (cases "q = a")
    case True
    then show ?thesis by (simp add: c)
  next
    case False
    with Cons.IH show ?thesis by (simp add: c insert_commute)
  qed
qed

lemma keys_addDeltas: "fst ` set (addDeltas ds cs) = fst ` set ds \<union> fst ` set cs"
proof (induction ds arbitrary: cs)
  case Nil
  then show ?case by simp
next
  case (Cons e ds)
  obtain q d where e: "e = (q, d)" by (cases e)
  have "fst ` set (addDeltas ds (addCount q d cs)) = fst ` set ds \<union> insert q (fst ` set cs)"
    by (simp only: Cons.IH keys_addCount)
  then show ?case by (simp add: e)
qed

lemma addCount_zero_present: "q \<in> fst ` set cs \<Longrightarrow> addCount q 0 cs = cs"
proof (induction cs)
  case Nil
  then show ?case by simp
next
  case (Cons c cs)
  obtain a b where c: "c = (a, b)" by (cases c)
  show ?case
  proof (cases "q = a")
    case True
    then show ?thesis by (simp add: c)
  next
    case False
    with Cons.prems have "q \<in> fst ` set cs" by (simp add: c)
    with Cons.IH False show ?thesis by (simp add: c)
  qed
qed

lemma addDeltas_zero_present:
  "\<forall>d \<in> set ds. snd d = 0 \<Longrightarrow> fst ` set ds \<subseteq> fst ` set cs \<Longrightarrow> addDeltas ds cs = cs"
proof (induction ds arbitrary: cs)
  case Nil
  then show ?case by simp
next
  case (Cons e ds)
  obtain q d where e: "e = (q, d)" by (cases e)
  with Cons.prems have d: "d = 0" and rest: "\<forall>d \<in> set ds. snd d = 0"
    and q: "q \<in> fst ` set cs" and sub: "fst ` set ds \<subseteq> fst ` set cs"
    by simp_all
  show ?case
    by (simp add: e d addCount_zero_present[OF q] Cons.IH[OF rest sub])
qed

lemma addDeltas_zero_twice:
  assumes "\<forall>d \<in> set ds. snd d = 0"
  shows "addDeltas ds (addDeltas ds cs) = addDeltas ds cs"
  using assms by (intro addDeltas_zero_present) (simp_all add: keys_addDeltas)

lemma receivedRow_twice:
  assumes "\<forall>d \<in> set (receivedRefCounts (snd e)). snd d = 0"
  shows "receivedRow (fst (receivedRow s e)) e = receivedRow s e"
proof -
  define s1 where "s1 = fst (receivedRow s e)"
  have rr: "receivedRows s1 (fst e) = Some (mergedCounts s e)"
    by (simp add: s1_def receivedRow_def Let_def)
  have ex: "existingOf s1 e = existingOf s e"
    using receivedRow_keeps[of s e] by (simp add: s1_def existingOf_def)
  have nv: "updatedVersion s1 = updatedVersion s"
    using receivedRow_keeps[of s e] by (simp add: s1_def)
  have mc: "mergedCounts s1 e = mergedCounts s e"
    using addDeltas_zero_twice[OF assms, of "baseCounts s e"]
    by (simp add: mergedCounts_def baseCounts_def[of s1] rr)
  have pv: "effectivePatchVersion s1 e = effectivePatchVersion s e"
    by (simp add: effectivePatchVersion_def ex mc nv split: option.splits)
  have rs: "receivedRows s1 = (receivedRows s)(fst e \<mapsto> mergedCounts s e)"
    by (simp add: s1_def receivedRow_def Let_def)
  show ?thesis
  proof (cases "existingOf s e")
    case None
    show ?thesis
    proof (cases "live (mergedCounts s e)")
      case True
      have first: "receivedRow s e =
          (s\<lparr>receivedRows := (receivedRows s)(fst e \<mapsto> mergedCounts s e),
             rowRecords := (rowRecords s)(fst e \<mapsto>
               \<lparr>rowVersion = receivedVersion (snd e), patchVersion = effectivePatchVersion s e,
                refCounts = Some (mergedCounts s e)\<rparr>)\<rparr>,
           [\<lparr>rowPatch = PutRow (fst e) (contents (snd e)),
             toVersion = effectivePatchVersion s e\<rparr>])"
        using None True by (simp add: receivedRow_def Let_def)
      have second: "receivedRow s1 e =
          (s1\<lparr>receivedRows := (receivedRows s1)(fst e \<mapsto> mergedCounts s e),
              rowRecords := (rowRecords s1)(fst e \<mapsto>
               \<lparr>rowVersion = receivedVersion (snd e), patchVersion = effectivePatchVersion s e,
                refCounts = Some (mergedCounts s e)\<rparr>)\<rparr>,
           [\<lparr>rowPatch = PutRow (fst e) (contents (snd e)),
             toVersion = effectivePatchVersion s e\<rparr>])"
        using None True by (simp add: receivedRow_def[of s1] Let_def ex mc pv)
      show ?thesis
        unfolding s1_def[symmetric] second
        by (simp add: s1_def first)
    next
      case False
      have first: "receivedRow s e =
          (s\<lparr>receivedRows := (receivedRows s)(fst e \<mapsto> mergedCounts s e),
             rowRecords := (rowRecords s)(fst e := None)\<rparr>, [])"
        using None False by (simp add: receivedRow_def Let_def)
      have second: "receivedRow s1 e =
          (s1\<lparr>receivedRows := (receivedRows s1)(fst e \<mapsto> mergedCounts s e),
              rowRecords := (rowRecords s1)(fst e := None)\<rparr>, [])"
        using None False by (simp add: receivedRow_def[of s1] Let_def ex mc pv)
      show ?thesis
        unfolding s1_def[symmetric] second
        by (simp add: s1_def first)
    qed
  next
    case (Some old)
    define written where "written = \<lparr>rowVersion = receivedVersion (snd e),
        patchVersion = effectivePatchVersion s e, refCounts = Some (mergedCounts s e)\<rparr>"
    have first: "receivedRow s e =
        (s\<lparr>receivedRows := (receivedRows s)(fst e \<mapsto> mergedCounts s e),
           rowRecords := ((rowRecords s)(fst old := None))(fst e \<mapsto> written)\<rparr>,
         if live (mergedCounts s e)
         then [\<lparr>rowPatch = PutRow (fst e) (contents (snd e)),
                toVersion = effectivePatchVersion s e\<rparr>] else [])"
      using Some by (simp add: receivedRow_def Let_def written_def)
    have second: "receivedRow s1 e =
        (s1\<lparr>receivedRows := (receivedRows s1)(fst e \<mapsto> mergedCounts s e),
            rowRecords := ((rowRecords s1)(fst old := None))(fst e \<mapsto> written)\<rparr>,
         if live (mergedCounts s e)
         then [\<lparr>rowPatch = PutRow (fst e) (contents (snd e)),
                toVersion = effectivePatchVersion s e\<rparr>] else [])"
      using Some by (simp add: receivedRow_def[of s1] Let_def ex mc pv written_def)
    have maps: "((((rowRecords s)(fst old := None))(fst e \<mapsto> written))(fst old := None))
          (fst e \<mapsto> written) =
        ((rowRecords s)(fst old := None))(fst e \<mapsto> written)"
      by (cases "fst old = fst e") (simp_all add: fun_upd_twist)
    show ?thesis
      unfolding s1_def[symmetric] second
      by (simp add: s1_def first maps)
  qed
qed

text \<open>
  C5, as the spec has it, fails where it excludes a patch from the second application:
  the row of \<open>advance with delete that cancels out add\<close>, received a second time with its
  count of 0, is put again. The state is the one the first application left.
\<close>

theorem received_twice_puts_again:
  "snd (received cancelsOut [unchangedCount]) =
     [putPatch (issueRow ''123'') [(''id'', JStr ''should-show-up-in-patch'')] (cvrVersion ''1ba'' 0)]
   \<and> snd (received (fst (received cancelsOut [unchangedCount])) [unchangedCount]) =
     [putPatch (issueRow ''123'') [(''id'', JStr ''should-show-up-in-patch'')] (cvrVersion ''1ba'' 0)]
   \<and> snd (received (fst (received cancelsOut [unchangedCount])) [unchangedCount]) \<noteq> []"
  by (simp add: cancelsOut_def unchangedCount_def tracking_def receivedRow_def
      existingOf_def mergedCounts_def effectivePatchVersion_def
      existingRecord_def keyWithin_def baseCounts_def countsOfRecord_def liveRecord_def live_def
      issueRow_def cvrVersion_def rowRecord_def rowUpdate_def putPatch_def Let_def)

text \<open>
  C5, amended. Applying \<open>received\<close> a second time with the same entry, whose received
  counts are all 0, leaves the updater in the state the first application left (the same
  row records and reference counts) and returns the output of the first application
  again: the same put at the same \<open>patchVersion\<close> when the row is live, and nothing
  otherwise.
\<close>

theorem received_idempotent:
  assumes "\<forall>d \<in> set (receivedRefCounts u). snd d = 0"
  shows "received (fst (received s [(ident, u)])) [(ident, u)] = received s [(ident, u)]"
proof -
  have one: "\<And>t. received t [(ident, u)] = receivedRow t (ident, u)"
    by (simp add: split_def Let_def)
  from assms have "receivedRow (fst (receivedRow s (ident, u))) (ident, u) = receivedRow s (ident, u)"
    by (intro receivedRow_twice) simp
  then show ?thesis by (simp only: one)
qed

theorem received_idempotent_witness:
  "receivedRefCounts (snd unchangedCount) = [(''oneHash'', 0)]
   \<and> received (fst (received cancelsOut [unchangedCount])) [unchangedCount] =
       received cancelsOut [unchangedCount]
   \<and> snd (received cancelsOut [unchangedCount]) =
       [putPatch (issueRow ''123'') [(''id'', JStr ''should-show-up-in-patch'')]
          (cvrVersion ''1ba'' 0)]
   \<and> rowRecords (fst (received cancelsOut [unchangedCount])) (issueRow ''123'') =
       Some (rowRecord ''04'' (cvrVersion ''1ba'' 0) (Some [(''oneHash'', 1)]))"
proof -
  have z: "receivedRefCounts (snd unchangedCount) = [(''oneHash'', 0)]"
    by (simp add: unchangedCount_def rowUpdate_def)
  then have zero: "\<forall>d \<in> set (receivedRefCounts (snd unchangedCount)). snd d = 0"
    by simp
  have pair: "unchangedCount = (fst unchangedCount, snd unchangedCount)" by simp
  from received_idempotent[OF zero, of cancelsOut "fst unchangedCount"]
  have same: "received (fst (received cancelsOut [unchangedCount])) [unchangedCount] =
       received cancelsOut [unchangedCount]"
    by simp
  have out: "snd (received cancelsOut [unchangedCount]) =
       [putPatch (issueRow ''123'') [(''id'', JStr ''should-show-up-in-patch'')]
          (cvrVersion ''1ba'' 0)]"
    by (simp add: cancelsOut_def unchangedCount_def tracking_def receivedRow_def
      existingOf_def mergedCounts_def effectivePatchVersion_def
      existingRecord_def keyWithin_def baseCounts_def countsOfRecord_def liveRecord_def live_def
      issueRow_def cvrVersion_def rowRecord_def rowUpdate_def putPatch_def Let_def)
  have rec: "rowRecords (fst (received cancelsOut [unchangedCount])) (issueRow ''123'') =
       Some (rowRecord ''04'' (cvrVersion ''1ba'' 0) (Some [(''oneHash'', 1)]))"
    by (simp add: cancelsOut_def unchangedCount_def tracking_def receivedRow_def
      existingOf_def mergedCounts_def effectivePatchVersion_def
      existingRecord_def keyWithin_def baseCounts_def countsOfRecord_def liveRecord_def live_def
      issueRow_def cvrVersion_def rowRecord_def rowUpdate_def putPatch_def Let_def)
  from z same out rec show ?thesis by simp
qed

subsection \<open>Versions across flushes\<close>

lemma versionLeq_trans: "versionLeq a b \<Longrightarrow> versionLeq b c \<Longrightarrow> versionLeq a c"
  by (auto simp: versionLeq_def versionLess_def)

lemma versionLess_trans: "versionLess a b \<Longrightarrow> versionLess b c \<Longrightarrow> versionLess a c"
  by (auto simp: versionLess_def)

lemma versionLess_nextMinor: "versionLess v (nextMinor v)"
  by (simp add: versionLess_def nextMinor_def)

lemma versionLess_advance: "stateVersion v < target \<Longrightarrow> versionLess v (advance v target)"
  by (simp add: versionLess_def advance_def)

lemma versionLess_irrefl: "\<not> versionLess v v"
  by (simp add: versionLess_def)

lemma nextMinor_neq: "nextMinor v \<noteq> v"
proof
  assume "nextMinor v = v"
  then have "minorVersion (nextMinor v) = minorVersion v" by simp
  then show False by (simp add: nextMinor_def)
qed

lemma advance_neq: "stateVersion v < target \<Longrightarrow> advance v target \<noteq> v"
proof
  assume less: "stateVersion v < target" and "advance v target = v"
  then have "stateVersion (advance v target) = stateVersion v" by simp
  with less show False by (simp add: advance_def)
qed

lemma fold_edit_moved:
  "newVersion u \<noteq> expectedVersion u \<Longrightarrow> fold edit edits u = u"
  by (induction edits) (simp_all add: edit_def ensureNewVersion_def)

lemma fold_edit_fresh:
  "newVersion u = expectedVersion u \<Longrightarrow>
   fold edit edits u =
     (if True \<in> set edits then u\<lparr>newVersion := nextMinor (expectedVersion u)\<rparr> else u)"
proof (induction edits)
  case Nil
  then show ?case by simp
next
  case (Cons changed edits)
  show ?case
  proof (cases changed)
    case True
    have moved: "newVersion (u\<lparr>newVersion := nextMinor (expectedVersion u)\<rparr>) \<noteq>
        expectedVersion (u\<lparr>newVersion := nextMinor (expectedVersion u)\<rparr>)"
      by (simp add: nextMinor_neq)
    have step: "edit True u = u\<lparr>newVersion := nextMinor (expectedVersion u)\<rparr>"
      using Cons.prems by (simp add: edit_def ensureNewVersion_def)
    from True show ?thesis
      by (simp add: step fold_edit_moved[OF moved])
  next
    case False
    have step: "edit False u = u" by (simp add: edit_def)
    from False Cons.IH[OF Cons.prems] show ?thesis by (simp add: step)
  qed
qed

lemma updaterOf_version:
  "expectedVersion (updaterOf up) = loadedVersion up
   \<and> loadedOwner (updaterOf up) = updateOwner up
   \<and> loadedGrantedAt (updaterOf up) = updateGrantedAt up
   \<and> (if changesSomething up
       then versionLess (loadedVersion up) (newVersion (updaterOf up))
       else newVersion (updaterOf up) = loadedVersion up)"
proof (cases "run up")
  case CVRUpdater
  then show ?thesis by (simp add: updaterOf_def runUpdater_def changesSomething_def)
next
  case (CVRConfigDrivenUpdater edits)
  then show ?thesis
    using versionLess_nextMinor[of "loadedVersion up"]
    by (simp add: updaterOf_def runUpdater_def changesSomething_def fold_edit_fresh)
next
  case (CVRQueryDrivenUpdater target edits)
  show ?thesis
  proof (cases "stateVersion (loadedVersion up) < target")
    case True
    define u0 where "u0 = \<lparr>expectedVersion = loadedVersion up, newVersion = loadedVersion up,
        loadedOwner = updateOwner up, loadedGrantedAt = updateGrantedAt up\<rparr>"
    have entered: "enterStateVersion target u0 = u0\<lparr>newVersion := advance (loadedVersion up) target\<rparr>"
      using True by (simp add: enterStateVersion_def u0_def)
    have "advance (loadedVersion up) target \<noteq> loadedVersion up"
      using True by (rule advance_neq)
    then have moved: "newVersion (u0\<lparr>newVersion := advance (loadedVersion up) target\<rparr>) \<noteq>
        expectedVersion (u0\<lparr>newVersion := advance (loadedVersion up) target\<rparr>)"
      by (simp add: u0_def)
    from fold_edit_moved[OF moved, of edits] entered True versionLess_advance[OF True]
    show ?thesis
      by (simp add: updaterOf_def runUpdater_def changesSomething_def CVRQueryDrivenUpdater
          u0_def)
  next
    case False
    then show ?thesis
      using versionLess_nextMinor[of "loadedVersion up"]
      by (simp add: updaterOf_def runUpdater_def changesSomething_def CVRQueryDrivenUpdater
          enterStateVersion_def fold_edit_fresh)
  qed
qed

lemma flushUpdate_version:
  assumes "flushUpdate up inst = Inr inst'"
  shows "loadedVersion up = instanceVersion inst
       \<and> (if changesSomething up
           then versionLess (instanceVersion inst) (instanceVersion inst')
           else instanceVersion inst' = instanceVersion inst)"
  using assms updaterOf_version[of up]
  by (auto simp: flushUpdate_def flush_def split: if_splits)

lemma flushUpdate_leq:
  "flushUpdate up inst = Inr inst' \<Longrightarrow> versionLeq (instanceVersion inst) (instanceVersion inst')"
  using flushUpdate_version[of up inst inst']
  by (auto simp: versionLeq_def split: if_splits)

lemma flushedVersions_leq:
  "sorted_wrt versionLeq (flushedVersions inst ups)
   \<and> (\<forall>v \<in> set (flushedVersions inst ups). versionLeq (instanceVersion inst) v)"
proof (induction ups arbitrary: inst)
  case Nil
  then show ?case by simp
next
  case (Cons up ups)
  show ?case
  proof (cases "flushUpdate up inst")
    case (Inl e)
    with Cons.IH[of inst] show ?thesis by simp
  next
    case (Inr inst')
    note step = flushUpdate_leq[OF Inr]
    from Cons.IH[of inst'] step show ?thesis
      by (auto simp: Inr intro: versionLeq_trans)
  qed
qed

lemma flushedVersions_less:
  "\<forall>up \<in> set ups. changesSomething up \<Longrightarrow>
   sorted_wrt versionLess (flushedVersions inst ups)
   \<and> (\<forall>v \<in> set (flushedVersions inst ups). versionLess (instanceVersion inst) v)"
proof (induction ups arbitrary: inst)
  case Nil
  then show ?case by simp
next
  case (Cons up ups)
  then have rest: "\<forall>up \<in> set ups. changesSomething up" and here: "changesSomething up"
    by simp_all
  show ?case
  proof (cases "flushUpdate up inst")
    case (Inl e)
    with Cons.IH[OF rest, of inst] show ?thesis by simp
  next
    case (Inr inst')
    from flushUpdate_version[OF Inr] here
    have step: "versionLess (instanceVersion inst) (instanceVersion inst')" by simp
    from Cons.IH[OF rest, of inst'] step show ?thesis
      by (auto simp: Inr intro: versionLess_trans)
  qed
qed

lemma flushes_steps:
  "\<forall>f \<in> set (flushes inst ups).
     (if changesSomething (fst (snd f)) then versionLess (fst f) (snd (snd f))
      else snd (snd f) = fst f)"
proof (induction ups arbitrary: inst)
  case Nil
  then show ?case by simp
next
  case (Cons up ups)
  show ?case
  proof (cases "flushUpdate up inst")
    case (Inl e)
    with Cons.IH[of inst] show ?thesis by simp
  next
    case (Inr inst')
    from flushUpdate_version[OF Inr] Cons.IH[of inst'] show ?thesis
      by (simp add: Inr)
  qed
qed

text \<open>
  C3, as the spec has it, fails: a flush of the updater that only records presence
  succeeds and leaves \<open>cvr.version\<close> where it was, and so does a flush of the query-driven
  updater when the queries and the state version are the ones the CVR has. Two such
  flushes give the same version twice.
\<close>

theorem presence_flushes_repeat_version:
  "flushedVersions activeInstance [presenceOnly, presenceOnly] =
     [cvrVersion ''1a9'' 2, cvrVersion ''1a9'' 2]
   \<and> flushedVersions activeInstance [presenceOnly, unchangedQueries] =
     [cvrVersion ''1a9'' 2, cvrVersion ''1a9'' 2]
   \<and> \<not> versionLess (cvrVersion ''1a9'' 2) (cvrVersion ''1a9'' 2)"
  by code_simp

text \<open>
  C3, amended. For every history of updates on one CVR, the versions that the successful
  flushes leave, after the version the history started from, are non-decreasing in the
  order of section 3. A successful flush leaves a strictly greater version when its
  updater changed the configuration, tracked an effective change of a query or was
  entered with a greater state version, and leaves the version unchanged otherwise, as
  the updater that records presence always does. So the versions are strictly
  increasing across a history in which every update changes something.
\<close>

theorem flushed_versions_monotone:
  "sorted_wrt versionLeq (instanceVersion inst # flushedVersions inst ups)
   \<and> (\<forall>f \<in> set (flushes inst ups).
        (if changesSomething (fst (snd f)) then versionLess (fst f) (snd (snd f))
         else snd (snd f) = fst f))
   \<and> ((\<forall>up \<in> set ups. changesSomething up) \<longrightarrow>
        sorted_wrt versionLess (instanceVersion inst # flushedVersions inst ups))"
  using flushedVersions_leq[of inst ups] flushes_steps[of inst ups]
    flushedVersions_less[of ups inst]
  by simp

theorem flushed_versions_monotone_witness:
  "flushedVersions activeInstance [presenceOnly, configChange, hydration] =
     [cvrVersion ''1a9'' 2, cvrVersion ''1a9'' 3, cvrVersion ''1ba'' 0]
   \<and> sorted_wrt versionLeq
       [cvrVersion ''1a9'' 2, cvrVersion ''1a9'' 2, cvrVersion ''1a9'' 3, cvrVersion ''1ba'' 0]
   \<and> flushes activeInstance [presenceOnly, configChange, hydration] =
       [(cvrVersion ''1a9'' 2, presenceOnly, cvrVersion ''1a9'' 2),
        (cvrVersion ''1a9'' 2, configChange, cvrVersion ''1a9'' 3),
        (cvrVersion ''1a9'' 3, hydration, cvrVersion ''1ba'' 0)]
   \<and> \<not> changesSomething presenceOnly
   \<and> changesSomething configChange
   \<and> versionLess (cvrVersion ''1a9'' 2) (cvrVersion ''1a9'' 3)
   \<and> changesSomething hydration
   \<and> flushedVersions activeInstance [configChange, hydration] =
       [cvrVersion ''1a9'' 3, cvrVersion ''1ba'' 0]
   \<and> sorted_wrt versionLess
       [cvrVersion ''1a9'' 2, cvrVersion ''1a9'' 3, cvrVersion ''1ba'' 0]"
proof -
  have run3: "flushedVersions activeInstance [presenceOnly, configChange, hydration] =
     [cvrVersion ''1a9'' 2, cvrVersion ''1a9'' 3, cvrVersion ''1ba'' 0]"
    by code_simp
  have fl: "flushes activeInstance [presenceOnly, configChange, hydration] =
       [(cvrVersion ''1a9'' 2, presenceOnly, cvrVersion ''1a9'' 2),
        (cvrVersion ''1a9'' 2, configChange, cvrVersion ''1a9'' 3),
        (cvrVersion ''1a9'' 3, hydration, cvrVersion ''1ba'' 0)]"
    by code_simp
  have run2: "flushedVersions activeInstance [configChange, hydration] =
       [cvrVersion ''1a9'' 3, cvrVersion ''1ba'' 0]"
    by code_simp
  have start: "instanceVersion activeInstance = cvrVersion ''1a9'' 2"
    by (simp add: activeInstance_def)
  have p: "\<not> changesSomething presenceOnly"
    by code_simp
  have c: "changesSomething configChange"
    by code_simp
  have h: "changesSomething hydration"
    by code_simp
  note three = flushed_versions_monotone[where inst = activeInstance
      and ups = "[presenceOnly, configChange, hydration]"]
  note two = flushed_versions_monotone[where inst = activeInstance
      and ups = "[configChange, hydration]"]
  from three have leq: "sorted_wrt versionLeq
       [cvrVersion ''1a9'' 2, cvrVersion ''1a9'' 2, cvrVersion ''1a9'' 3, cvrVersion ''1ba'' 0]"
    unfolding run3 start by (rule conjunct1)
  from three c have less: "versionLess (cvrVersion ''1a9'' 2) (cvrVersion ''1a9'' 3)"
    unfolding fl by simp
  from two c h have strict: "sorted_wrt versionLess
       [cvrVersion ''1a9'' 2, cvrVersion ''1a9'' 3, cvrVersion ''1ba'' 0]"
    unfolding run2 start by simp
  from run3 leq fl p c less h run2 strict show ?thesis by (intro conjI)
qed


end
